theory Spec2Isabelle
  imports Complex_Main "HOL-Library.AList" "HOL-Library.Multiset" "HOL-Library.Product_Lexorder"
begin

section \<open>JavaScript values used by the pipeline\<close>

text \<open>
  The development embeds the ingestion pipeline of \<^verbatim>\<open>src/App.jsx\<close>: \<^verbatim>\<open>parseCsv\<close>,
  \<^verbatim>\<open>detectColumns\<close>, \<^verbatim>\<open>expandRows\<close>, the \<^verbatim>\<open>filteredRows\<close> predicate and
  \<^verbatim>\<open>aggregate\<close>.

  Conventions of the embedding.
  \<^item> A JavaScript string is a \<^typ>\<open>string\<close>; a \<^typ>\<open>char\<close> stands for one UTF-16 code unit
    below 256 (the Latin-1 range), so \<^verbatim>\<open>toLowerCase\<close>, \<^verbatim>\<open>trim\<close> and the regular
    expressions of the source are exact on such text. Text with code units from 256 on is
    outside the model.
  \<^item> A role key that is \<^verbatim>\<open>null\<close> or \<^verbatim>\<open>undefined\<close> is \<open>None\<close>; a value used as a condition
    goes through an explicit truthiness test.
  \<^item> A row object is the association list of its own properties, in the order in which they
    were created; all of them hold strings. Reading \<^verbatim>\<open>row[k]\<close> falls back to
    \<^verbatim>\<open>Object.prototype\<close> for a key the row does not own, and the assignment
    \<^verbatim>\<open>row['__proto__'] = v\<close> of a string creates no property, as in the language.
  \<^item> A JavaScript number is a \<open>jsnum\<close>: a finite binary64 value (held as the rational it
    denotes), an infinity or NaN. Arithmetic rounds to nearest, ties to even, as IEEE 754
    does; the sign of zero is not tracked (no modelled function observes it).
\<close>

subsection \<open>Strings\<close>

text \<open>ECMAScript \<^verbatim>\<open>WhiteSpace\<close> and \<^verbatim>\<open>LineTerminator\<close> code units below 256: TAB, LF, VT,
  FF, CR, SP and NBSP. They are what \<^verbatim>\<open>trim\<close>, \<^verbatim>\<open>trimEnd\<close> and \<^verbatim>\<open>Number\<close> strip.\<close>

definition isWhiteSpace :: "char \<Rightarrow> bool" where
  "isWhiteSpace c = (c \<in> set [CHR 0x09, CHR 0x0A, CHR 0x0B, CHR 0x0C, CHR 0x0D, CHR 0x20, CHR 0xA0])"

definition trimStart :: "string \<Rightarrow> string" where
  "trimStart s = dropWhile isWhiteSpace s"

definition trimEnd :: "string \<Rightarrow> string" where
  "trimEnd s = rev (dropWhile isWhiteSpace (rev s))"

definition trim :: "string \<Rightarrow> string" where
  "trim s = trimStart (trimEnd s)"

text \<open>\<^verbatim>\<open>toLowerCase\<close> on code units below 256: A-Z and the Latin-1 capitals U+00C0..U+00DE
  (without the multiplication sign U+00D7) move up by 32; everything else is unchanged.\<close>

definition lowerChar :: "char \<Rightarrow> char" where
  "lowerChar c = (let n = (of_char c :: nat) in
     if (65 \<le> n \<and> n \<le> 90) \<or> (192 \<le> n \<and> n \<le> 222 \<and> n \<noteq> 215)
     then char_of (n + 32) else c)"

definition toLowerCase :: "string \<Rightarrow> string" where
  "toLowerCase s = map lowerChar s"

text \<open>The regular expression \<^verbatim>\<open>/[A-Za-z]/\<close>.\<close>

definition isAsciiLetter :: "char \<Rightarrow> bool" where
  "isAsciiLetter c = (let n = (of_char c :: nat) in (65 \<le> n \<and> n \<le> 90) \<or> (97 \<le> n \<and> n \<le> 122))"

text \<open>\<^verbatim>\<open>s.includes(sub)\<close>: \<open>sub\<close> occurs in \<open>s\<close> as a contiguous run.\<close>

fun includesStr :: "string \<Rightarrow> string \<Rightarrow> bool" where
  "includesStr [] sub = (sub = [])"
| "includesStr (c # cs) sub = (take (length sub) (c # cs) = sub \<or> includesStr cs sub)"

text \<open>\<^verbatim>\<open>s.split(d)\<close> for a one-character separator: always at least one piece.\<close>

fun splitOn :: "char \<Rightarrow> string \<Rightarrow> string list" where
  "splitOn d [] = [[]]"
| "splitOn d (c # cs) =
     (if c = d then [] # splitOn d cs
      else (case splitOn d cs of [] \<Rightarrow> [[c]] | w # ws \<Rightarrow> (c # w) # ws))"

text \<open>\<^verbatim>\<open>text.replace(/\r\n/g, '\n')\<close>.\<close>

fun replaceCRLF :: "string \<Rightarrow> string" where
  "replaceCRLF [] = []"
| "replaceCRLF [c] = [c]"
| "replaceCRLF (c # d # cs) =
     (if c = CHR 0x0D \<and> d = CHR 0x0A then CHR 0x0A # replaceCRLF cs
      else c # replaceCRLF (d # cs))"

text \<open>The decimal numeral that a template literal prints for a non-negative integer.\<close>

fun showNat :: "nat \<Rightarrow> string" where
  "showNat n = (if n < 10 then [''0123456789'' ! n]
                else showNat (n div 10) @ [''0123456789'' ! (n mod 10)])"

declare showNat.simps [simp del]

text \<open>Decimal digits and the number a run of them denotes.\<close>

definition isDigit :: "char \<Rightarrow> bool" where
  "isDigit c = (let n = (of_char c :: nat) in 48 \<le> n \<and> n \<le> 57)"

definition digitVal :: "char \<Rightarrow> nat" where
  "digitVal c = of_char c - 48"

definition digitsVal :: "string \<Rightarrow> nat" where
  "digitsVal s = foldl (\<lambda>a c. 10 * a + digitVal c) 0 s"

text \<open>Truthiness of a role key: a string, \<^verbatim>\<open>null\<close> or \<^verbatim>\<open>undefined\<close>.\<close>

fun truthy :: "string option \<Rightarrow> bool" where
  "truthy None = False"
| "truthy (Some s) = (s \<noteq> [])"

text \<open>A property key made from a header that may be \<^verbatim>\<open>undefined\<close> (\<^verbatim>\<open>headers[0]\<close> of an
  empty list): \<^verbatim>\<open>r[undefined]\<close> reads the key \<^verbatim>\<open>"undefined"\<close>.\<close>

fun propertyKey :: "string option \<Rightarrow> string" where
  "propertyKey None = ''undefined''"
| "propertyKey (Some s) = s"

subsection \<open>Row objects\<close>

text \<open>A row is created as \<^verbatim>\<open>{}\<close> and filled by assignments \<^verbatim>\<open>row[h] = cell\<close>. Its own
  properties are kept in creation order, with pairwise different keys. What \<^verbatim>\<open>row[k]\<close> can
  read is a string (an own property), \<^verbatim>\<open>undefined\<close>, or a property inherited from
  \<^verbatim>\<open>Object.prototype\<close>: the prototype object itself under \<^verbatim>\<open>__proto__\<close>, or one of its
  built-in functions.\<close>

type_synonym row = "(string \<times> string) list"

datatype jsval = Undefined | Str string | ObjectPrototype | NativeFunction string

text \<open>The function-valued properties of \<^verbatim>\<open>Object.prototype\<close>; each function is named after
  its key, except that \<^verbatim>\<open>constructor\<close> is the function \<^verbatim>\<open>Object\<close>.\<close>

definition objectPrototypeMethods :: "string list" where
  "objectPrototypeMethods =
     [''constructor'', ''__defineGetter__'', ''__defineSetter__'', ''hasOwnProperty'',
      ''__lookupGetter__'', ''__lookupSetter__'', ''isPrototypeOf'', ''propertyIsEnumerable'',
      ''toString'', ''valueOf'', ''toLocaleString'']"

text \<open>\<^verbatim>\<open>row[k]\<close>: the own property, else what \<^verbatim>\<open>Object.prototype\<close> provides, else
  \<^verbatim>\<open>undefined\<close>.\<close>

definition getProp :: "row \<Rightarrow> string \<Rightarrow> jsval" where
  "getProp r k =
     (case map_of r k of
        Some v \<Rightarrow> Str v
      | None \<Rightarrow>
          if k = ''__proto__'' then ObjectPrototype
          else if k \<in> set objectPrototypeMethods
          then NativeFunction (if k = ''constructor'' then ''Object'' else k)
          else Undefined)"

text \<open>\<^verbatim>\<open>row[k] = v\<close> for a string \<open>v\<close>. An own property keeps its position and gets the new
  value. Otherwise a property is added at the end, unless \<open>k\<close> is \<^verbatim>\<open>__proto__\<close>: that
  assignment runs the setter inherited from \<^verbatim>\<open>Object.prototype\<close>, which ignores a value
  that is neither an object nor \<^verbatim>\<open>null\<close>. (The other inherited properties are writable data
  properties, which an assignment shadows by an own property.)\<close>

definition setProp :: "string \<Rightarrow> string \<Rightarrow> row \<Rightarrow> row" where
  "setProp k v r =
     (if k = ''__proto__'' \<and> k \<notin> fst ` set r then r else AList.update k v r)"

text \<open>The own keys as \<^verbatim>\<open>Object.keys\<close> lists them: first the array indices (canonical
  decimal numerals below \<open>2^32 - 1\<close>) in ascending numeric order, then the other keys in
  creation order. No modelled function enumerates the keys of a row; the order matters to
  statements about the keys only.\<close>

definition isArrayIndex :: "string \<Rightarrow> bool" where
  "isArrayIndex k =
     (k \<noteq> [] \<and> list_all isDigit k \<and> (k = ''0'' \<or> hd k \<noteq> CHR ''0'') \<and> digitsVal k < 4294967295)"

definition jsKeyOrder :: "string list \<Rightarrow> string list" where
  "jsKeyOrder ks =
     sort_key digitsVal (filter isArrayIndex ks) @ filter (\<lambda>k. \<not> isArrayIndex k) ks"

definition ownKeys :: "row \<Rightarrow> string list" where
  "ownKeys r = jsKeyOrder (map fst r)"

text \<open>\<^verbatim>\<open>String(v)\<close> and the truthiness of a value read from a row. The text of a built-in
  function is the one V8 prints; the pipeline reads a row at header names and role keys
  only, which never name an inherited function that the row does not shadow.\<close>

fun jsString :: "jsval \<Rightarrow> string" where
  "jsString Undefined = ''undefined''"
| "jsString (Str s) = s"
| "jsString ObjectPrototype = ''[object Object]''"
| "jsString (NativeFunction f) = ''function '' @ f @ ''() { [native code] }''"

fun truthyVal :: "jsval \<Rightarrow> bool" where
  "truthyVal Undefined = False"
| "truthyVal (Str s) = (s \<noteq> [])"
| "truthyVal v = True"

subsection \<open>Numbers\<close>

datatype jsnum = Finite rat | PosInf | NegInf | NaN

text \<open>Rounding a rational to binary64, to nearest with ties to even. \<open>bits n\<close> is the
  number of binary digits of \<open>n\<close>, \<open>binexp a\<close> the exponent \<open>e\<close> with
  \<open>2^e \<le> a < 2^(e+1)\<close> for a positive \<open>a\<close>. A value is rounded to a multiple of the
  quantum \<open>2^(e-52)\<close>, where \<open>e\<close> is at least \<open>-1022\<close> (below that, subnormal numbers share
  the quantum \<open>2^-1074\<close>); a result of \<open>2^1024\<close> or more is an infinity.\<close>

fun bits :: "nat \<Rightarrow> nat" where
  "bits n = (if n = 0 then 0 else Suc (bits (n div 2)))"

declare bits.simps [simp del]

definition pow2 :: "int \<Rightarrow> rat" where
  "pow2 k = (if 0 \<le> k then 2 ^ nat k else 1 / 2 ^ nat (- k))"

definition pow10 :: "int \<Rightarrow> rat" where
  "pow10 k = (if 0 \<le> k then 10 ^ nat k else 1 / 10 ^ nat (- k))"

definition binexp :: "rat \<Rightarrow> int" where
  "binexp a = (if 1 \<le> a then int (bits (nat \<lfloor>a\<rfloor>)) - 1
               else - int (bits (nat (\<lceil>1 / a\<rceil> - 1))))"

definition roundHalfEven :: "rat \<Rightarrow> int" where
  "roundHalfEven x =
     (let f = \<lfloor>x\<rfloor>; d = x - of_int f
      in if d < 1 / 2 then f else if 1 / 2 < d then f + 1 else if even f then f else f + 1)"

definition roundDouble :: "rat \<Rightarrow> jsnum" where
  "roundDouble x =
     (if x = 0 then Finite 0
      else
        let a = \<bar>x\<bar>;
            e = max (binexp a) (- 1022);
            q = pow2 (e - 52);
            r = of_int (roundHalfEven (a / q)) * q
        in if pow2 1024 \<le> r then (if 0 < x then PosInf else NegInf)
           else Finite (if 0 < x then r else - r))"

text \<open>Negation, addition and subtraction of numbers.\<close>

fun jsNeg :: "jsnum \<Rightarrow> jsnum" where
  "jsNeg (Finite a) = Finite (- a)"
| "jsNeg PosInf = NegInf"
| "jsNeg NegInf = PosInf"
| "jsNeg NaN = NaN"

fun jsAdd :: "jsnum \<Rightarrow> jsnum \<Rightarrow> jsnum" where
  "jsAdd NaN y = NaN"
| "jsAdd x NaN = NaN"
| "jsAdd PosInf NegInf = NaN"
| "jsAdd NegInf PosInf = NaN"
| "jsAdd PosInf y = PosInf"
| "jsAdd x PosInf = PosInf"
| "jsAdd NegInf y = NegInf"
| "jsAdd x NegInf = NegInf"
| "jsAdd (Finite a) (Finite b) = roundDouble (a + b)"

definition jsSub :: "jsnum \<Rightarrow> jsnum \<Rightarrow> jsnum" where
  "jsSub x y = jsAdd x (jsNeg y)"

definition isNaN :: "jsnum \<Rightarrow> bool" where
  "isNaN x = (x = NaN)"

text \<open>\<^verbatim>\<open>Number(s)\<close> for a string (ECMAScript \<^verbatim>\<open>StringToNumber\<close>): white space is trimmed,
  the empty string is 0, then a binary, octal or hexadecimal integer (no sign), or a
  signed decimal literal or \<^verbatim>\<open>Infinity\<close>; anything else is NaN. The mathematical value of
  the literal is rounded to binary64.\<close>

definition isHexDigit :: "char \<Rightarrow> bool" where
  "isHexDigit c = (let n = (of_char c :: nat)
     in (48 \<le> n \<and> n \<le> 57) \<or> (65 \<le> n \<and> n \<le> 70) \<or> (97 \<le> n \<and> n \<le> 102))"

definition hexVal :: "char \<Rightarrow> nat" where
  "hexVal c = (let n = (of_char c :: nat)
     in if n \<le> 57 then n - 48 else if n \<le> 70 then n - 55 else n - 87)"

definition radixVal :: "nat \<Rightarrow> string \<Rightarrow> nat" where
  "radixVal b s = foldl (\<lambda>a c. b * a + hexVal c) 0 s"

definition parseRadix :: "nat \<Rightarrow> string \<Rightarrow> jsnum" where
  "parseRadix b ds =
     (if ds \<noteq> [] \<and> list_all (\<lambda>c. isHexDigit c \<and> hexVal c < b) ds
      then roundDouble (of_nat (radixVal b ds)) else NaN)"

definition parseExponent :: "string \<Rightarrow> int option" where
  "parseExponent s =
     (case s of
        [] \<Rightarrow> Some 0
      | c # r \<Rightarrow>
          if c = CHR ''e'' \<or> c = CHR ''E'' then
            (case r of
               [] \<Rightarrow> None
             | d # r' \<Rightarrow>
                 if d = CHR ''+'' then
                   (if r' \<noteq> [] \<and> list_all isDigit r' then Some (int (digitsVal r')) else None)
                 else if d = CHR ''-'' then
                   (if r' \<noteq> [] \<and> list_all isDigit r' then Some (- int (digitsVal r')) else None)
                 else (if list_all isDigit r then Some (int (digitsVal r)) else None))
          else None)"

definition parseUnsignedDecimal :: "string \<Rightarrow> jsnum" where
  "parseUnsignedDecimal s =
     (if s = ''Infinity'' then PosInf
      else
        let ip = takeWhile isDigit s;
            r1 = dropWhile isDigit s;
            fp = (case r1 of [] \<Rightarrow> [] | c # r \<Rightarrow> if c = CHR ''.'' then takeWhile isDigit r else []);
            r2 = (case r1 of [] \<Rightarrow> [] | c # r \<Rightarrow> if c = CHR ''.'' then dropWhile isDigit r else r1)
        in if ip = [] \<and> fp = [] then NaN
           else (case parseExponent r2 of
                   None \<Rightarrow> NaN
                 | Some e \<Rightarrow> roundDouble (of_nat (digitsVal (ip @ fp)) * pow10 (e - int (length fp)))))"

definition jsNumber :: "string \<Rightarrow> jsnum" where
  "jsNumber s =
     (let t = trim s
      in case t of
           [] \<Rightarrow> Finite 0
         | c # r \<Rightarrow>
             if c = CHR ''0'' \<and> r \<noteq> [] \<and> hd r \<in> set ''xX'' then parseRadix 16 (tl r)
             else if c = CHR ''0'' \<and> r \<noteq> [] \<and> hd r \<in> set ''oO'' then parseRadix 8 (tl r)
             else if c = CHR ''0'' \<and> r \<noteq> [] \<and> hd r \<in> set ''bB'' then parseRadix 2 (tl r)
             else if c = CHR ''+'' then parseUnsignedDecimal r
             else if c = CHR ''-'' then jsNeg (parseUnsignedDecimal r)
             else parseUnsignedDecimal t)"

section \<open>Tokenizer: \<^verbatim>\<open>parseCsv\<close>\<close>

record ParsedTable =
  headers :: "string list"
  rows :: "row list"
  rawHeaders :: "string list"

text \<open>\<^verbatim>\<open>detectDelimiter\<close>: commas against tabs in the first non-blank line.\<close>

definition detectDelimiter :: "string list \<Rightarrow> char" where
  "detectDelimiter ls =
     (let firstLine = (case find (\<lambda>l. trim l \<noteq> []) ls of None \<Rightarrow> [] | Some l \<Rightarrow> l);
          commaCount = length (filter (\<lambda>c. c = CHR '','') firstLine);
          tabCount = length (filter (\<lambda>c. c = CHR 0x09) firstLine)
      in if tabCount > commaCount then CHR 0x09 else CHR '','')"

text \<open>The character loop of \<^verbatim>\<open>splitCsvLine\<close>: the rest of the line, the cell being
  built, the quote state and the cells finished so far.\<close>

fun csvLoop :: "char \<Rightarrow> string \<Rightarrow> string \<Rightarrow> bool \<Rightarrow> string list \<Rightarrow> string list" where
  "csvLoop delimiter [] current inQuotes result = result @ [current]"
| "csvLoop delimiter [ch] current inQuotes result =
     (if ch = CHR 0x22 then csvLoop delimiter [] current (\<not> inQuotes) result
      else if ch = delimiter \<and> \<not> inQuotes then csvLoop delimiter [] [] inQuotes (result @ [current])
      else csvLoop delimiter [] (current @ [ch]) inQuotes result)"
| "csvLoop delimiter (ch # nxt # rest) current inQuotes result =
     (if ch = CHR 0x22 then
        (if inQuotes \<and> nxt = CHR 0x22 then csvLoop delimiter rest (current @ [CHR 0x22]) inQuotes result
         else csvLoop delimiter (nxt # rest) current (\<not> inQuotes) result)
      else if ch = delimiter \<and> \<not> inQuotes then csvLoop delimiter (nxt # rest) [] inQuotes (result @ [current])
      else csvLoop delimiter (nxt # rest) (current @ [ch]) inQuotes result)"

definition splitCsvLine :: "string \<Rightarrow> char \<Rightarrow> string list" where
  "splitCsvLine line delimiter =
     (if delimiter = CHR 0x09 then splitOn (CHR 0x09) line
      else csvLoop delimiter line [] False [])"

text \<open>\<^verbatim>\<open>isHeaderRow\<close>. The source computes \<^verbatim>\<open>Math.ceil(cells.length * 0.3)\<close> in binary64;
  for fewer than \<open>2^50\<close> cells the rounded product has the ceiling of the exact \<open>3n/10\<close>
  (the double nearest 0.3 is below it by less than \<open>2^-56\<close>, and a product that is an
  integer in exact arithmetic rounds back to that integer), which is \<open>(3n + 9) div 10\<close>.\<close>

definition isHeaderRow :: "string list \<Rightarrow> bool" where
  "isHeaderRow cells =
     (let texty = length (filter (\<lambda>c. list_ex isAsciiLetter c) cells)
      in texty \<ge> max 2 ((3 * length cells + 9) div 10))"

text \<open>The scan for the header row (lines 409 to 420): the lines still to visit, the loop
  index \<open>i\<close>, and the variables \<open>headerIdx\<close> and \<open>maxCols\<close>.\<close>

fun headerScan :: "string list list \<Rightarrow> nat \<Rightarrow> nat \<Rightarrow> nat \<Rightarrow> nat \<times> nat" where
  "headerScan [] i headerIdx maxCols = (headerIdx, maxCols)"
| "headerScan (cells # rest) i headerIdx maxCols =
     (if isHeaderRow cells then (i, length cells)
      else if length cells > maxCols then headerScan rest (i + 1) i (length cells)
      else headerScan rest (i + 1) headerIdx maxCols)"

text \<open>The \<^verbatim>\<open>while\<close> loop of \<^verbatim>\<open>sanitizeHeaders\<close>: \<open>used\<close> holds the lowercased names
  handed out so far.\<close>

function uniqueName :: "string list \<Rightarrow> string \<Rightarrow> string \<Rightarrow> nat \<Rightarrow> string" where
  "uniqueName used base name attempt =
     (if toLowerCase name \<in> set used
      then uniqueName used base (base @ ''_'' @ showNat attempt) (attempt + 1)
      else name)"
  by pat_completeness auto

text \<open>The loop ends on every input; the proof is in the section on its termination.\<close>

text \<open>\<^verbatim>\<open>sanitizeHeaders\<close>: the \<^verbatim>\<open>map\<close> over the header cells with their index, threading
  the set \<open>used\<close>.\<close>

fun sanitizeLoop :: "string list \<Rightarrow> nat \<Rightarrow> string list \<Rightarrow> string list" where
  "sanitizeLoop [] idx used = []"
| "sanitizeLoop (h # hs) idx used =
     (let base = (if trim h \<noteq> [] then trim h else ''col'' @ showNat (idx + 1));
          name = uniqueName used base base 1
      in name # sanitizeLoop hs (idx + 1) (toLowerCase name # used))"

definition sanitizeHeaders :: "string list \<Rightarrow> string list" where
  "sanitizeHeaders hs = sanitizeLoop hs 0 []"

text \<open>One data line made into a row (lines 438 to 443): pad, then assign one property per
  header.\<close>

definition mkRow :: "string list \<Rightarrow> string list \<Rightarrow> row" where
  "mkRow hs cells =
     (let padded = cells @ replicate (length hs - length cells) []
      in foldl (\<lambda>r (h, idx). setProp h (if idx < length padded then padded ! idx else []) r)
           [] (zip hs [0..<length hs]))"

definition parseCsv :: "string \<Rightarrow> ParsedTable" where
  "parseCsv text =
     (let ls = filter (\<lambda>l. trim l \<noteq> []) (map trimEnd (splitOn (CHR 0x0A) (replaceCRLF text)))
      in if ls = [] then \<lparr>headers = [], rows = [], rawHeaders = []\<rparr>
      else
        let delimiter = detectDelimiter ls;
            allCells = map (\<lambda>l. splitCsvLine l delimiter) ls;
            (headerIdx, maxCols) = headerScan allCells 0 0 0;
            headerCells0 = allCells ! headerIdx;
            firstDataCells =
              (case find (\<lambda>c. list_ex (\<lambda>v. trim v \<noteq> []) c) (drop (headerIdx + 1) allCells) of
                 None \<Rightarrow> [] | Some c \<Rightarrow> c);
            headerCells1 =
              (if headerCells0 \<noteq> [] \<and> hd headerCells0 \<noteq> []
                  \<and> includesStr (toLowerCase (hd headerCells0)) ''branch''
                  \<and> length firstDataCells = length headerCells0 + 1
               then ''Area'' # headerCells0 else headerCells0);
            headerCells =
              (if length headerCells1 < maxCols
               then headerCells1 @
                    map (\<lambda>i. ''col'' @ showNat (length headerCells1 + i + 1))
                      [0..<maxCols - length headerCells1]
               else headerCells1);
            hs = sanitizeHeaders headerCells;
            rs = map (mkRow hs)
                   (filter (\<lambda>cells. \<not> list_all (\<lambda>cell. trim cell = []) cells)
                      (drop (headerIdx + 1) allCells))
        in \<lparr>headers = hs, rows = rs, rawHeaders = headerCells\<rparr>)"

section \<open>Schema Inferencer: \<^verbatim>\<open>detectColumns\<close>\<close>

record RoleMap =
  metaHeaders :: "string list"
  productKey :: "string option"
  branchKey :: "string option"
  areaKey :: "string option"
  itemKey :: "string option"
  metricKey :: "string option"
  productColumns :: "string list"
  syntheticProduct :: bool
  syntheticProductLabel :: string
  metaRawHeaders :: "string list"

text \<open>\<^verbatim>\<open>findHeader\<close>: the first header whose lowercased name is one of the candidates.\<close>

definition findHeader :: "string list \<Rightarrow> string list \<Rightarrow> string option" where
  "findHeader hs candidates = find (\<lambda>h. toLowerCase h \<in> set candidates) hs"

text \<open>\<^verbatim>\<open>replace(/[,%]/g, '')\<close>, as well as \<^verbatim>\<open>replace(/,/g, '').replace(/%/g, '')\<close>.\<close>

definition stripCommaPercent :: "string \<Rightarrow> string" where
  "stripCommaPercent s = filter (\<lambda>c. c \<noteq> CHR '','' \<and> c \<noteq> CHR ''%'') s"

fun looksNumeric :: "jsval \<Rightarrow> bool" where
  "looksNumeric Undefined = False"
| "looksNumeric v =
     (let cleaned = trim (stripCommaPercent (jsString v))
      in if cleaned = [] then False else \<not> isNaN (jsNumber cleaned))"

definition productKeywords :: "string list" where
  "productKeywords = [''product'', ''item'', ''sku'', ''product name'', ''material'', ''pork bbq'']"

definition branchKeywords :: "string list" where
  "branchKeywords = [''branch'', ''store'', ''location'', ''office'']"

definition areaKeywords :: "string list" where
  "areaKeywords = [''area'', ''region'', ''zone'', ''territory'']"

definition itemKeywords :: "string list" where
  "itemKeywords = [''item description'', ''item'', ''description'', ''item desc'']"

definition metricKeywords :: "string list" where
  "metricKeywords = [''alloc'', ''average'', ''avg'', ''value'', ''amount'', ''metric'', ''qty'',
     ''quantity'', ''total'', ''sales'', ''volume'', ''pork bbq'', ''daily sales'',
     ''kg conversion per pc'']"

definition fixedProducts :: "string list" where
  "fixedProducts = [''backribs'', ''chicken paa'', ''chicken pecho'', ''pork bbq'', ''spareribs'']"

definition banned :: "string list" where
  "banned = [''sum'', ''avg'', ''average'', ''alloc'', ''allocation'', ''conversion'', ''target'',
     ''total'', ''uom'', ''branch'', ''area'', ''metric'', ''value'', ''amount'', ''qty'',
     ''quantity'', ''sales'', ''volume'', ''%'', ''kg'']"

definition isProductish :: "string \<Rightarrow> bool" where
  "isProductish h = (let l = toLowerCase h in if list_ex (\<lambda>b. includesStr l b) banned then False else True)"

text \<open>\<^verbatim>\<open>xs.slice(start, stop)\<close> for indices that are not negative.\<close>

definition slice :: "nat \<Rightarrow> nat \<Rightarrow> 'a list \<Rightarrow> 'a list" where
  "slice start stop xs = take (stop - start) (drop start xs)"

text \<open>The area fallback (lines 518 to 525).\<close>

definition areaFallback :: "string list \<Rightarrow> row list \<Rightarrow> string option \<Rightarrow> string option \<Rightarrow> string option" where
  "areaFallback hs rs branchK areaK =
     (if \<not> truthy areaK \<and> truthy branchK then
        let firstHeader = (case hs of [] \<Rightarrow> None | h # t \<Rightarrow> Some h);
            sampleValues = filter (\<lambda>v. v \<noteq> [])
              (map (\<lambda>r. trim (if truthyVal (getProp r (propertyKey firstHeader))
                               then jsString (getProp r (propertyKey firstHeader)) else [])) rs);
            allNumeric = (sampleValues \<noteq> [] \<and> list_all (\<lambda>v. looksNumeric (Str v)) sampleValues)
        in if firstHeader \<noteq> branchK \<and> length sampleValues > 3 \<and> \<not> allNumeric
           then firstHeader else areaK
      else areaK)"

text \<open>The product columns (lines 544 to 559), from the numeric headers and the keys already
  taken.\<close>

definition detectProductColumns ::
  "string list \<Rightarrow> string list \<Rightarrow> string option list \<Rightarrow> string list" where
  "detectProductColumns hs numericHeaders keys =
     (let reserved = map (\<lambda>k. toLowerCase (the k)) (filter truthy keys);
          productColumns0 = filter (\<lambda>h. toLowerCase h \<notin> set reserved) numericHeaders;
          fixedSlice = filter (\<lambda>h. h \<noteq> []) (slice 2 7 hs);
          fixedMatch = filter (\<lambda>h. toLowerCase h \<in> set fixedProducts) fixedSlice
      in if fixedMatch \<noteq> [] then fixedMatch
         else if productColumns0 = [] \<and> length hs \<ge> 3 then
           (let sl = filter (\<lambda>h. h \<noteq> [] \<and> trim h \<noteq> []) (slice 2 (min (length hs) 7) hs)
            in if sl \<noteq> [] then sl else productColumns0)
         else productColumns0)"

text \<open>The synthetic product label (lines 566 to 596): the first raw header that passes the
  denylist or the default, then the assignment guarded by the label being empty.\<close>

definition chooseSyntheticLabel :: "string list \<Rightarrow> string option \<Rightarrow> string" where
  "chooseSyntheticLabel raw finalMetricKey =
     (let cleanedRaw = filter (\<lambda>h. h \<noteq> []) (map trim raw);
          productish = find isProductish cleanedRaw;
          label0 = (if truthy productish then the productish else ''All Products'')
      in if label0 = [] \<and> truthy finalMetricKey then the finalMetricKey else label0)"

definition detectColumns :: "string list \<Rightarrow> row list \<Rightarrow> string list \<Rightarrow> RoleMap" where
  "detectColumns hs rs raw =
     (let numericHeaders = filter (\<lambda>h. list_ex (\<lambda>r. looksNumeric (getProp r h)) rs) hs;
          productK = findHeader hs productKeywords;
          branchK = findHeader hs branchKeywords;
          areaK = areaFallback hs rs branchK (findHeader hs areaKeywords);
          itemK = findHeader hs itemKeywords;
          metricK = findHeader hs metricKeywords;
          productCols = detectProductColumns hs numericHeaders [productK, branchK, areaK, itemK];
          finalMetricKey =
            (if truthy metricK then metricK
             else if length productCols = 1 then Some (productCols ! 0) else None);
          synthetic = (\<not> truthy productK \<and> productCols = [])
      in \<lparr>metaHeaders = hs, productKey = productK, branchKey = branchK, areaKey = areaK,
          itemKey = itemK, metricKey = finalMetricKey, productColumns = productCols,
          syntheticProduct = synthetic,
          syntheticProductLabel =
            (if synthetic then chooseSyntheticLabel raw finalMetricKey else ''All Products''),
          metaRawHeaders = raw\<rparr>)"

section \<open>Row Expander: \<^verbatim>\<open>normalizeRow\<close> and \<^verbatim>\<open>expandRows\<close>\<close>

record NormalizedRecord =
  product :: string
  item :: string
  branch :: string
  area :: string
  metric :: jsnum





section \<open>Filtering and the Aggregator\<close>

record Filters =
  filterProduct :: string
  filterBranch :: string
  filterArea :: string
  filterGroup :: string

text \<open>\<^verbatim>\<open>filteredRows\<close> (lines 97 to 104); \<^verbatim>\<open>'__all'\<close> stands for "no constraint".\<close>

definition filteredRows :: "NormalizedRecord list \<Rightarrow> Filters \<Rightarrow> RoleMap \<Rightarrow> NormalizedRecord list" where
  "filteredRows dataRows f m =
     filter (\<lambda>r.
        let productOk = (filterProduct f = ''__all'' \<or> product r = filterProduct f);
            branchOk = (\<not> truthy (branchKey m) \<or> filterBranch f = ''__all'' \<or> branch r = filterBranch f);
            areaOk = (\<not> truthy (areaKey m) \<or> filterArea f = ''__all'' \<or> area r = filterArea f)
        in productOk \<and> branchOk \<and> areaOk) dataRows"

text \<open>A \<^verbatim>\<open>Map\<close> from labels to totals, in insertion order.\<close>

type_synonym totals = "(string \<times> jsnum) list"

text \<open>\<^verbatim>\<open>totals.get(label) || 0\<close>: \<^verbatim>\<open>undefined\<close>, 0 and NaN are falsy.\<close>

fun orZero :: "jsnum option \<Rightarrow> jsnum" where
  "orZero None = Finite 0"
| "orZero (Some NaN) = Finite 0"
| "orZero (Some v) = v"

definition dimensionValue :: "string \<Rightarrow> NormalizedRecord \<Rightarrow> string" where
  "dimensionValue dimension r =
     (if dimension = ''branch'' then branch r else if dimension = ''area'' then area r else product r)"

definition groupLabel :: "string \<Rightarrow> NormalizedRecord \<Rightarrow> string" where
  "groupLabel dimension r =
     (if dimensionValue dimension r \<noteq> [] then dimensionValue dimension r else ''Unspecified'')"

definition addToTotals :: "string \<Rightarrow> totals \<Rightarrow> NormalizedRecord \<Rightarrow> totals" where
  "addToTotals dimension t r =
     (let l = groupLabel dimension r
      in AList.update l (jsAdd (orZero (map_of t l)) (metric r)) t)"

text \<open>\<^verbatim>\<open>Array.prototype.sort\<close> with a comparator is stable; with a consistent comparator
  its result is the one of any stable sort. It is modelled as insertion from the right,
  which places an element after exactly those it compares greater than. The comparator
  \<^verbatim>\<open>b.value - a.value\<close> is consistent as long as no total is NaN (a difference of equal
  infinities is NaN, which \<^verbatim>\<open>sort\<close> reads as 0, so equal infinities tie). With a NaN total
  the language leaves the order to the engine; \<open>sortBy\<close> is used on totals without NaN
  only.\<close>

definition positive :: "jsnum \<Rightarrow> bool" where
  "positive x = (case x of Finite a \<Rightarrow> 0 < a | PosInf \<Rightarrow> True | NegInf \<Rightarrow> False | NaN \<Rightarrow> False)"

fun insertBy :: "('a \<Rightarrow> 'a \<Rightarrow> jsnum) \<Rightarrow> 'a \<Rightarrow> 'a list \<Rightarrow> 'a list" where
  "insertBy cmp x [] = [x]"
| "insertBy cmp x (y # ys) = (if positive (cmp x y) then y # insertBy cmp x ys else x # y # ys)"

definition sortBy :: "('a \<Rightarrow> 'a \<Rightarrow> jsnum) \<Rightarrow> 'a list \<Rightarrow> 'a list" where
  "sortBy cmp xs = foldr (insertBy cmp) xs []"

definition aggregate :: "NormalizedRecord list \<Rightarrow> string \<Rightarrow> totals" where
  "aggregate rs dimension =
     sortBy (\<lambda>a b. jsSub (snd b) (snd a)) (foldl (addToTotals dimension) [] rs)"

section \<open>Ingestion: the \<^verbatim>\<open>onload\<close> handler of \<^verbatim>\<open>handleFileChange\<close>\<close>



section \<open>Specification-side definitions and example data\<close>

text \<open>The definitions below are not part of the program: they word what the
  specification asks for, give the orders and predicates the theorems are stated with, and
  name the inputs of the examples.\<close>

subsection \<open>The measure of the renaming loop\<close>

text \<open>The lowercased candidates \<open>base_k\<close>, for \<open>k\<close> from \<open>attempt\<close> on, that are in
  \<open>used\<close>; their number goes down with every candidate the loop rejects.\<close>

definition pendingNames :: "string list \<Rightarrow> string \<Rightarrow> nat \<Rightarrow> string set" where
  "pendingNames used base attempt =
     {u \<in> set used. \<exists>k\<ge>attempt. u = toLowerCase (base @ ''_'' @ showNat k)}"

subsection \<open>Filtering\<close>

text \<open>The filter as the specification words it: for each of the three dimensions that the
  schema resolves (product always, branch and area when their key is set), the filter is
  "no constraint" or equals the record's value.\<close>

datatype dimension = DimProduct | DimBranch | DimArea

fun resolved :: "RoleMap \<Rightarrow> dimension \<Rightarrow> bool" where
  "resolved m DimProduct = True"
| "resolved m DimBranch = truthy (branchKey m)"
| "resolved m DimArea = truthy (areaKey m)"

fun filterOf :: "Filters \<Rightarrow> dimension \<Rightarrow> string" where
  "filterOf f DimProduct = filterProduct f"
| "filterOf f DimBranch = filterBranch f"
| "filterOf f DimArea = filterArea f"

fun valueOf :: "NormalizedRecord \<Rightarrow> dimension \<Rightarrow> string" where
  "valueOf r DimProduct = product r"
| "valueOf r DimBranch = branch r"
| "valueOf r DimArea = area r"

definition passes :: "Filters \<Rightarrow> RoleMap \<Rightarrow> NormalizedRecord \<Rightarrow> bool" where
  "passes f m r =
     list_all (\<lambda>d. resolved m d \<longrightarrow> filterOf f d = ''__all'' \<or> valueOf r d = filterOf f d)
       [DimProduct, DimBranch, DimArea]"

subsection \<open>The data lines of a text\<close>

text \<open>The lines of a text that are not blank, each split into its cells, and among them the
  data lines: those after the header line that have a cell which is not blank. Row \<open>i\<close> of
  the parsed table is made from data line \<open>i\<close>.\<close>

definition tokenLines :: "string \<Rightarrow> string list list" where
  "tokenLines text =
     (let ls = filter (\<lambda>l. trim l \<noteq> []) (map trimEnd (splitOn (CHR 0x0A) (replaceCRLF text)))
      in map (\<lambda>l. splitCsvLine l (detectDelimiter ls)) ls)"

definition dataCells :: "string \<Rightarrow> string list list" where
  "dataCells text =
     filter (\<lambda>cells. list_ex (\<lambda>cell. trim cell \<noteq> []) cells)
       (drop (fst (headerScan (tokenLines text) 0 0 0) + 1) (tokenLines text))"

subsection \<open>Row expansion\<close>






subsection \<open>Aggregation\<close>

text \<open>What the specification asks of the Aggregator. The grouping dimension is one of
  product, branch and area, passed to \<^verbatim>\<open>aggregate\<close> by its name. The label of a record is
  its value in that dimension, \<^verbatim>\<open>Unspecified\<close> when that value is the empty string. The
  groups are the labels in the order in which they are first met, each with the sum of the
  metrics of its records, added in record order starting from 0 as \<^verbatim>\<open>reduce\<close> on line 110
  does.\<close>

fun dimensionName :: "dimension \<Rightarrow> string" where
  "dimensionName DimProduct = ''product''"
| "dimensionName DimBranch = ''branch''"
| "dimensionName DimArea = ''area''"

definition labelOf :: "dimension \<Rightarrow> NormalizedRecord \<Rightarrow> string" where
  "labelOf d r = (if valueOf r d = [] then ''Unspecified'' else valueOf r d)"

fun firstSeen :: "'a list \<Rightarrow> 'a list" where
  "firstSeen [] = []"
| "firstSeen (x # xs) = x # filter (\<lambda>y. y \<noteq> x) (firstSeen xs)"

definition sumNumbers :: "jsnum list \<Rightarrow> jsnum" where
  "sumNumbers xs = foldl jsAdd (Finite 0) xs"

definition sumsBy :: "(NormalizedRecord \<Rightarrow> string) \<Rightarrow> NormalizedRecord list \<Rightarrow> totals" where
  "sumsBy label rs =
     map (\<lambda>l. (l, sumNumbers (map metric (filter (\<lambda>r. label r = l) rs))))
       (firstSeen (map label rs))"

definition groupTotals :: "dimension \<Rightarrow> NormalizedRecord list \<Rightarrow> totals" where
  "groupTotals d rs = sumsBy (labelOf d) rs"

text \<open>The order of numbers; NaN is not comparable.\<close>

fun jsLess :: "jsnum \<Rightarrow> jsnum \<Rightarrow> bool" where
  "jsLess (Finite a) (Finite b) = (a < b)"
| "jsLess (Finite a) PosInf = True"
| "jsLess NegInf (Finite b) = True"
| "jsLess NegInf PosInf = True"
| "jsLess x y = False"

text \<open>The stable sort "on a key that is minus the total": the key of a total in a linear
  order, greatest total first.\<close>

fun sortKey :: "jsnum \<Rightarrow> int \<times> rat" where
  "sortKey PosInf = (- 1, 0)"
| "sortKey (Finite a) = (0, - a)"
| "sortKey NegInf = (1, 0)"
| "sortKey NaN = (2, 0)"

text \<open>Every finite binary64 value is a multiple of \<open>2^-1074\<close>: \<open>onGrid\<close> holds of these
  multiples, \<open>isDouble\<close> of the numbers other than NaN whose finite value is one.\<close>

definition onGrid :: "rat \<Rightarrow> bool" where
  "onGrid x = (\<exists>k::int. x = of_int k * pow2 (- 1074))"

fun isDouble :: "jsnum \<Rightarrow> bool" where
  "isDouble (Finite a) = onGrid a"
| "isDouble PosInf = True"
| "isDouble NegInf = True"
| "isDouble NaN = False"

subsection \<open>Inputs of the examples\<close>

definition headerExampleLines :: "string list" where
  "headerExampleLines = [''metadata,,'', ''Product,Branch,Value'', ''Widgets,East,10'']"

definition headerExampleText :: string where
  "headerExampleText =
     ''metadata,,'' @ [CHR 0x0A] @ ''Product,Branch,Value'' @ [CHR 0x0A] @ ''Widgets,East,10''"

definition paddingExampleText :: string where
  "paddingExampleText = ''Qty,qty,Branch'' @ [CHR 0x0A] @ ''1,2''"

definition protoExampleText :: string where
  "protoExampleText = ''__proto__,Name,Qty'' @ [CHR 0x0A] @ ''a,b,3''"

definition filterExampleMeta :: RoleMap where
  "filterExampleMeta =
     \<lparr>metaHeaders = [''Product'', ''Area'', ''Qty''], productKey = Some ''Product'',
      branchKey = None, areaKey = Some ''Area'', itemKey = None, metricKey = Some ''Qty'',
      productColumns = [], syntheticProduct = False, syntheticProductLabel = ''All Products'',
      metaRawHeaders = [''Product'', ''Area'', ''Qty'']\<rparr>"

definition filterExampleRows :: "NormalizedRecord list" where
  "filterExampleRows =
     [\<lparr>product = ''A'', item = [], branch = [], area = ''North'', metric = Finite 3\<rparr>,
      \<lparr>product = ''B'', item = [], branch = [], area = ''north'', metric = Finite 5\<rparr>]"

definition filterExampleFilters :: Filters where
  "filterExampleFilters =
     \<lparr>filterProduct = ''__all'', filterBranch = ''East'', filterArea = ''North'',
      filterGroup = ''product''\<rparr>"

definition labelExampleText :: string where
  "labelExampleText = ''Total,Qty'' @ [CHR 0x0A] @ ''x,y''"

definition bandExampleHeaders :: "string list" where
  "bandExampleHeaders = [''Area'', ''Branch'', ''Backribs'', ''Qty'', ''Spareribs'']"

definition fallbackExampleHeaders :: "string list" where
  "fallbackExampleHeaders = [''Area'', ''Branch'', ''Notes'', ''Remarks'']"

definition fallbackExampleRows :: "row list" where
  "fallbackExampleRows =
     [[(''Area'', ''N''), (''Branch'', ''East''), (''Notes'', ''a''), (''Remarks'', ''b'')]]"







definition tieExample :: "NormalizedRecord list" where
  "tieExample =
     [\<lparr>product = ''A'', item = [], branch = [], area = [], metric = Finite 3\<rparr>,
      \<lparr>product = ''B'', item = [], branch = [], area = [], metric = Finite 5\<rparr>,
      \<lparr>product = ''A'', item = [], branch = [], area = [], metric = Finite 2\<rparr>]"

definition infiniteTotalExample :: "NormalizedRecord list" where
  "infiniteTotalExample =
     [\<lparr>product = ''A'', item = [], branch = ''East'', area = [], metric = Finite 5\<rparr>,
      \<lparr>product = ''B'', item = [], branch = [], area = [], metric = PosInf\<rparr>,
      \<lparr>product = ''C'', item = [], branch = [], area = [], metric = PosInf\<rparr>]"

definition resetExample :: "NormalizedRecord list" where
  "resetExample =
     [\<lparr>product = ''A'', item = [], branch = [], area = [], metric = PosInf\<rparr>,
      \<lparr>product = ''A'', item = [], branch = [], area = [], metric = NegInf\<rparr>,
      \<lparr>product = ''A'', item = [], branch = [], area = [], metric = Finite 5\<rparr>]"


section \<open>Termination of the loop in \<^verbatim>\<open>sanitizeHeaders\<close>\<close>

text \<open>Termination: every pass through the loop with a candidate \<open>base_k\<close> that is taken
  uses up one of the finitely many names in \<open>used\<close>, because the candidates for different
  \<open>k\<close> stay different after lowercasing.\<close>

lemma digit_nth:
  assumes "n < 10"
  shows "digitVal (''0123456789'' ! n) = n \<and> isDigit (''0123456789'' ! n)"
proof -
  from assms have "n \<in> {0, 1, 2, 3, 4, 5, 6, 7, 8, 9}" by auto
  then show ?thesis by (auto simp: digitVal_def isDigit_def)
qed

lemma digitsVal_snoc: "digitsVal (s @ [c]) = 10 * digitsVal s + digitVal c"
  by (simp add: digitsVal_def)

lemma digitsVal_showNat: "digitsVal (showNat n) = n"
proof (induction n rule: showNat.induct)
  case (1 n)
  show ?case
  proof (cases "n < 10")
    case True
    then show ?thesis using digit_nth[of n] by (simp add: showNat.simps[of n] digitsVal_def)
  next
    case False
    then show ?thesis using 1 digit_nth[of "n mod 10"]
      by (simp add: showNat.simps[of n] digitsVal_snoc)
  qed
qed

lemma showNat_inj: "showNat m = showNat n \<Longrightarrow> m = n"
  by (metis digitsVal_showNat)

lemma showNat_digits: "c \<in> set (showNat n) \<Longrightarrow> isDigit c"
proof (induction n rule: showNat.induct)
  case (1 n)
  show ?case
  proof (cases "n < 10")
    case True
    then show ?thesis using 1(2) digit_nth[of n] by (simp add: showNat.simps[of n])
  next
    case False
    then show ?thesis using 1 digit_nth[of "n mod 10"]
      by (auto simp add: showNat.simps[of n])
  qed
qed

lemma showNat_nonempty: "showNat n \<noteq> []"
  by (subst showNat.simps) simp

lemma lowerChar_digit: "isDigit c \<Longrightarrow> lowerChar c = c"
  by (simp add: isDigit_def lowerChar_def Let_def)

lemma toLowerCase_showNat: "toLowerCase (showNat n) = showNat n"
  by (simp add: toLowerCase_def map_idI showNat_digits lowerChar_digit)

lemma candidate_inj:
  assumes "toLowerCase (base @ ''_'' @ showNat j) = toLowerCase (base @ ''_'' @ showNat k)"
  shows "j = k"
proof -
  from assms have "toLowerCase (showNat j) = toLowerCase (showNat k)"
    by (simp add: toLowerCase_def)
  then show ?thesis by (simp add: toLowerCase_showNat showNat_inj)
qed

lemma pendingNames_step:
  assumes "toLowerCase (base @ ''_'' @ showNat attempt) \<in> set used"
  shows "card (pendingNames used base (attempt + 1)) < card (pendingNames used base attempt)"
proof (rule psubset_card_mono)
  show "finite (pendingNames used base attempt)" by (simp add: pendingNames_def)
  have "toLowerCase (base @ ''_'' @ showNat attempt) \<in> pendingNames used base attempt"
    using assms by (auto simp: pendingNames_def)
  moreover have "toLowerCase (base @ ''_'' @ showNat attempt) \<notin> pendingNames used base (attempt + 1)"
    using candidate_inj[of base attempt] by (fastforce simp: pendingNames_def)
  moreover have "pendingNames used base (attempt + 1) \<subseteq> pendingNames used base attempt"
  proof
    fix u assume "u \<in> pendingNames used base (attempt + 1)"
    then obtain k where "u \<in> set used" "attempt + 1 \<le> k" "u = toLowerCase (base @ ''_'' @ showNat k)"
      by (auto simp: pendingNames_def)
    then show "u \<in> pendingNames used base attempt"
      unfolding pendingNames_def by (intro CollectI conjI exI[of _ k]) simp_all
  qed
  ultimately show "pendingNames used base (attempt + 1) \<subset> pendingNames used base attempt"
    by blast
qed

termination uniqueName
proof (relation "measure (\<lambda>(used, base, name, attempt).
         if toLowerCase name \<in> set used then 1 + card (pendingNames used base attempt) else 0)")
  show "wf (measure (\<lambda>(used, base, name, attempt).
         if toLowerCase name \<in> set used then 1 + card (pendingNames used base attempt) else 0))"
    by simp
next
  fix used :: "string list" and base name :: string and attempt :: nat
  assume "toLowerCase name \<in> set used"
  then show "((used, base, base @ ''_'' @ showNat attempt, attempt + 1), (used, base, name, attempt))
      \<in> measure (\<lambda>(used, base, name, attempt).
         if toLowerCase name \<in> set used then 1 + card (pendingNames used base attempt) else 0)"
    using pendingNames_step[of base attempt used] by simp
qed

declare uniqueName.simps [simp del]

section \<open>Properties of the Tokenizer\<close>

subsection \<open>Header-row detection\<close>

lemma ceil_three_tenths: "\<lceil>(3 / 10) * real n\<rceil> = int ((3 * n + 9) div 10)"
proof (rule ceiling_unique)
  have lo: "10 * ((3 * n + 9) div 10) \<le> 3 * n + 9" by simp
  have hi: "3 * n + 9 < 10 * ((3 * n + 9) div 10) + 10" by presburger
  from lo have "real (10 * ((3 * n + 9) div 10)) \<le> real (3 * n + 9)"
    by (rule of_nat_mono)
  then show "real_of_int (int ((3 * n + 9) div 10)) - 1 < 3 / 10 * real n" by simp
  from hi have "real (3 * n + 9) < real (10 * ((3 * n + 9) div 10) + 10)"
    using of_nat_less_iff by blast
  then show "3 / 10 * real n \<le> real_of_int (int ((3 * n + 9) div 10))" by simp
qed

lemma isHeaderRow_ceiling:
  "isHeaderRow cells \<longleftrightarrow>
     max 2 \<lceil>(3 / 10) * real (length cells)\<rceil> \<le> int (length (filter (\<lambda>c. list_ex isAsciiLetter c) cells))"
  unfolding ceil_three_tenths by (simp add: isHeaderRow_def Let_def)

lemma headerScan_texty:
  assumes "k < length rest" "isHeaderRow (rest ! k)" "\<forall>j<k. \<not> isHeaderRow (rest ! j)"
  shows "headerScan rest i h m = (i + k, length (rest ! k))"
  using assms
proof (induction rest arbitrary: i h m k)
  case Nil
  then show ?case by simp
next
  case (Cons cells rest)
  show ?case
  proof (cases k)
    case 0
    with Cons.prems show ?thesis by simp
  next
    case (Suc k')
    with Cons.prems have nh: "\<not> isHeaderRow cells" by auto
    from Suc Cons.prems
    have p: "k' < length rest" "isHeaderRow (rest ! k')" "\<forall>j<k'. \<not> isHeaderRow (rest ! j)"
      by auto
    show ?thesis using nh Suc Cons.IH[OF p] by simp
  qed
qed

text \<open>When no line is texty the scan either never raises \<open>maxCols\<close> (every line is at most
  \<open>m\<close> wide) or stops on the first line of the greatest width.\<close>

lemma headerScan_widest:
  assumes "\<forall>c\<in>set rest. \<not> isHeaderRow c"
  shows "(headerScan rest i h m = (h, m) \<and> (\<forall>c\<in>set rest. length c \<le> m)) \<or>
         (\<exists>k<length rest. headerScan rest i h m = (i + k, length (rest ! k)) \<and> m < length (rest ! k)
             \<and> (\<forall>c\<in>set rest. length c \<le> length (rest ! k))
             \<and> (\<forall>j<k. length (rest ! j) < length (rest ! k)))"
  using assms
proof (induction rest arbitrary: i h m)
  case Nil
  then show ?case by simp
next
  case (Cons cells rest)
  then have nh: "\<not> isHeaderRow cells" and rest: "\<forall>c\<in>set rest. \<not> isHeaderRow c" by auto
  show ?case
  proof (cases "length cells > m")
    case True
    from Cons.IH[OF rest, of "i + 1" i "length cells"]
    show ?thesis
    proof
      assume a: "headerScan rest (i + 1) i (length cells) = (i, length cells)
                 \<and> (\<forall>c\<in>set rest. length c \<le> length cells)"
      have "0 < length (cells # rest)
          \<and> headerScan (cells # rest) i h m = (i + 0, length ((cells # rest) ! 0))
          \<and> m < length ((cells # rest) ! 0)
          \<and> (\<forall>c\<in>set (cells # rest). length c \<le> length ((cells # rest) ! 0))
          \<and> (\<forall>j<0. length ((cells # rest) ! j) < length ((cells # rest) ! 0))"
        using a nh True by simp
      then show ?thesis by blast
    next
      assume "\<exists>k<length rest.
         headerScan rest (i + 1) i (length cells) = (i + 1 + k, length (rest ! k))
         \<and> length cells < length (rest ! k)
         \<and> (\<forall>c\<in>set rest. length c \<le> length (rest ! k))
         \<and> (\<forall>j<k. length (rest ! j) < length (rest ! k))"
      then obtain k where k: "k < length rest"
        "headerScan rest (i + 1) i (length cells) = (i + 1 + k, length (rest ! k))"
        "length cells < length (rest ! k)"
        "\<forall>c\<in>set rest. length c \<le> length (rest ! k)"
        "\<forall>j<k. length (rest ! j) < length (rest ! k)"
        by blast
      have "Suc k < length (cells # rest)
          \<and> headerScan (cells # rest) i h m = (i + Suc k, length ((cells # rest) ! Suc k))
          \<and> m < length ((cells # rest) ! Suc k)
          \<and> (\<forall>c\<in>set (cells # rest). length c \<le> length ((cells # rest) ! Suc k))
          \<and> (\<forall>j<Suc k. length ((cells # rest) ! j) < length ((cells # rest) ! Suc k))"
        using k nh True by (auto simp: less_Suc_eq_0_disj)
      then show ?thesis by blast
    qed
  next
    case False
    from Cons.IH[OF rest, of "i + 1" h m]
    show ?thesis
    proof
      assume a: "headerScan rest (i + 1) h m = (h, m) \<and> (\<forall>c\<in>set rest. length c \<le> m)"
      then show ?thesis using nh False by simp
    next
      assume "\<exists>k<length rest.
         headerScan rest (i + 1) h m = (i + 1 + k, length (rest ! k))
         \<and> m < length (rest ! k)
         \<and> (\<forall>c\<in>set rest. length c \<le> length (rest ! k))
         \<and> (\<forall>j<k. length (rest ! j) < length (rest ! k))"
      then obtain k where k: "k < length rest"
        "headerScan rest (i + 1) h m = (i + 1 + k, length (rest ! k))"
        "m < length (rest ! k)"
        "\<forall>c\<in>set rest. length c \<le> length (rest ! k)"
        "\<forall>j<k. length (rest ! j) < length (rest ! k)"
        by blast
      have "Suc k < length (cells # rest)
          \<and> headerScan (cells # rest) i h m = (i + Suc k, length ((cells # rest) ! Suc k))
          \<and> m < length ((cells # rest) ! Suc k)
          \<and> (\<forall>c\<in>set (cells # rest). length c \<le> length ((cells # rest) ! Suc k))
          \<and> (\<forall>j<Suc k. length ((cells # rest) ! j) < length ((cells # rest) ! Suc k))"
        using k nh False by (auto simp: less_Suc_eq_0_disj)
      then show ?thesis by blast
    qed
  qed
qed

lemma headerScan_fallback:
  assumes "allCells \<noteq> []" "\<forall>c\<in>set allCells. \<not> isHeaderRow c"
  shows "fst (headerScan allCells 0 0 0) < length allCells
       \<and> (\<forall>c\<in>set allCells. length c \<le> length (allCells ! fst (headerScan allCells 0 0 0)))
       \<and> (\<forall>j<fst (headerScan allCells 0 0 0).
             length (allCells ! j) < length (allCells ! fst (headerScan allCells 0 0 0)))"
proof -
  from headerScan_widest[OF assms(2), of 0 0 0]
  show ?thesis
  proof
    assume "headerScan allCells 0 0 0 = (0, 0) \<and> (\<forall>c\<in>set allCells. length c \<le> 0)"
    then show ?thesis using assms(1) by auto
  next
    assume "\<exists>k<length allCells.
       headerScan allCells 0 0 0 = (0 + k, length (allCells ! k)) \<and> 0 < length (allCells ! k)
       \<and> (\<forall>c\<in>set allCells. length c \<le> length (allCells ! k))
       \<and> (\<forall>j<k. length (allCells ! j) < length (allCells ! k))"
    then show ?thesis by auto
  qed
qed

lemma headerExample_cells:
  "map (\<lambda>l. splitCsvLine l (detectDelimiter headerExampleLines)) headerExampleLines =
     [[''metadata'', [], []], [''Product'', ''Branch'', ''Value''], [''Widgets'', ''East'', ''10'']]"
  unfolding headerExampleLines_def by code_simp

lemma headerExample_parse:
  "parseCsv headerExampleText =
     \<lparr>headers = [''Product'', ''Branch'', ''Value''],
      rows = [[(''Product'', ''Widgets''), (''Branch'', ''East''), (''Value'', ''10'')]],
      rawHeaders = [''Product'', ''Branch'', ''Value'']\<rparr>"
  unfolding headerExampleText_def by code_simp

text \<open>Claim C7. A line is a header candidate exactly when its number of cells with an ASCII
  letter is at least \<open>max 2 (ceiling (0.3 * cells))\<close>. The scan returns the index of the first
  such line; when no line qualifies it returns the index of the first line of greatest
  width. For the three lines \<^verbatim>\<open>metadata,,\<close> / \<^verbatim>\<open>Product,Branch,Value\<close> /
  \<^verbatim>\<open>Widgets,East,10\<close> the header row is the line at index 1, and \<^verbatim>\<open>parseCsv\<close> takes its
  headers from that line.\<close>

theorem header_row_detection:
  "(isHeaderRow cells \<longleftrightarrow>
      max 2 \<lceil>(3 / 10) * real (length cells)\<rceil>
        \<le> int (length (filter (\<lambda>c. list_ex isAsciiLetter c) cells)))
   \<and> (k < length allCells \<and> isHeaderRow (allCells ! k) \<and> (\<forall>j<k. \<not> isHeaderRow (allCells ! j))
        \<longrightarrow> fst (headerScan allCells 0 0 0) = k)
   \<and> (allCells \<noteq> [] \<and> (\<forall>c\<in>set allCells. \<not> isHeaderRow c)
        \<longrightarrow> fst (headerScan allCells 0 0 0) < length allCells
          \<and> (\<forall>c\<in>set allCells. length c \<le> length (allCells ! fst (headerScan allCells 0 0 0)))
          \<and> (\<forall>j<fst (headerScan allCells 0 0 0).
                length (allCells ! j) < length (allCells ! fst (headerScan allCells 0 0 0))))
   \<and> fst (headerScan
            (map (\<lambda>l. splitCsvLine l (detectDelimiter headerExampleLines)) headerExampleLines)
            0 0 0) = 1
   \<and> headers (parseCsv headerExampleText) = [''Product'', ''Branch'', ''Value'']"
proof (intro conjI impI)
  show "isHeaderRow cells \<longleftrightarrow>
      max 2 \<lceil>(3 / 10) * real (length cells)\<rceil>
        \<le> int (length (filter (\<lambda>c. list_ex isAsciiLetter c) cells))"
    by (rule isHeaderRow_ceiling)
next
  assume "k < length allCells \<and> isHeaderRow (allCells ! k) \<and> (\<forall>j<k. \<not> isHeaderRow (allCells ! j))"
  then show "fst (headerScan allCells 0 0 0) = k"
    using headerScan_texty[of k allCells 0 0 0] by simp
next
  assume a: "allCells \<noteq> [] \<and> (\<forall>c\<in>set allCells. \<not> isHeaderRow c)"
  then have f: "fst (headerScan allCells 0 0 0) < length allCells
       \<and> (\<forall>c\<in>set allCells. length c \<le> length (allCells ! fst (headerScan allCells 0 0 0)))
       \<and> (\<forall>j<fst (headerScan allCells 0 0 0).
             length (allCells ! j) < length (allCells ! fst (headerScan allCells 0 0 0)))"
    using headerScan_fallback[of allCells] by blast
  from f show "fst (headerScan allCells 0 0 0) < length allCells" by blast
  from f show "\<forall>c\<in>set allCells. length c \<le> length (allCells ! fst (headerScan allCells 0 0 0))"
    by blast
  from f show "\<forall>j<fst (headerScan allCells 0 0 0).
             length (allCells ! j) < length (allCells ! fst (headerScan allCells 0 0 0))"
    by blast
next
  show "fst (headerScan
            (map (\<lambda>l. splitCsvLine l (detectDelimiter headerExampleLines)) headerExampleLines)
            0 0 0) = 1"
    unfolding headerExample_cells by (simp add: isHeaderRow_def isAsciiLetter_def)
next
  show "headers (parseCsv headerExampleText) = [''Product'', ''Branch'', ''Value'']"
    by (simp add: headerExample_parse)
qed

text \<open>The theorem at the lines of the example (a texty line at index 1 after a line that is
  not) and at three numeric lines (no texty line; the widest is at index 1).\<close>

theorem header_row_detection_witness:
  "isHeaderRow [''Product'', ''Branch'', ''Value'']
   \<and> \<not> isHeaderRow [''metadata'', [], []]
   \<and> fst (headerScan [[''metadata'', [], []], [''Product'', ''Branch'', ''Value''],
                       [''Widgets'', ''East'', ''10'']] 0 0 0) = 1
   \<and> \<not> isHeaderRow [''1'', ''2''] \<and> \<not> isHeaderRow [''3'', ''4'', ''5''] \<and> \<not> isHeaderRow [''6'']
   \<and> fst (headerScan [[''1'', ''2''], [''3'', ''4'', ''5''], [''6'']] 0 0 0) < 3
   \<and> length ([[''1'', ''2''], [''3'', ''4'', ''5''], [''6'']]
         ! fst (headerScan [[''1'', ''2''], [''3'', ''4'', ''5''], [''6'']] 0 0 0)) = 3"
proof -
  let ?ex = "[[''metadata'', [], []], [''Product'', ''Branch'', ''Value''],
              [''Widgets'', ''East'', ''10'']]"
  let ?num = "[[''1'', ''2''], [''3'', ''4'', ''5''], [''6'']]"
  have h1: "isHeaderRow [''Product'', ''Branch'', ''Value'']"
    by (simp add: isHeaderRow_def isAsciiLetter_def)
  have h0: "\<not> isHeaderRow [''metadata'', [], []]"
    by (simp add: isHeaderRow_def isAsciiLetter_def)
  have n: "\<not> isHeaderRow [''1'', ''2'']" "\<not> isHeaderRow [''3'', ''4'', ''5'']" "\<not> isHeaderRow [''6'']"
    by (simp_all add: isHeaderRow_def isAsciiLetter_def)
  have a: "(1::nat) < length ?ex \<and> isHeaderRow (?ex ! 1) \<and> (\<forall>j<1. \<not> isHeaderRow (?ex ! j))"
    using h1 h0 by simp
  have b: "?num \<noteq> [] \<and> (\<forall>c\<in>set ?num. \<not> isHeaderRow c)"
    using n by simp
  from a header_row_detection[of _ 1 ?ex] have r1: "fst (headerScan ?ex 0 0 0) = 1"
    by blast
  from b header_row_detection[of _ _ ?num]
  have r2: "fst (headerScan ?num 0 0 0) < length ?num
          \<and> (\<forall>c\<in>set ?num. length c \<le> length (?num ! fst (headerScan ?num 0 0 0)))"
    by blast
  then have "length [''3'', ''4'', ''5''] \<le> length (?num ! fst (headerScan ?num 0 0 0))"
    by simp
  moreover have "length (?num ! fst (headerScan ?num 0 0 0)) \<le> 3"
    using r2 by (auto simp: less_Suc_eq numeral_3_eq_3)
  ultimately have r3: "length (?num ! fst (headerScan ?num 0 0 0)) = 3" by simp
  from r2 have r4: "fst (headerScan ?num 0 0 0) < 3" by simp
  show ?thesis using h1 h0 n r1 r3 r4 by blast
qed

subsection \<open>Unique headers and row keys\<close>

lemma uniqueName_fresh: "toLowerCase (uniqueName used base name attempt) \<notin> set used"
proof (induction used base name attempt rule: uniqueName.induct)
  case (1 used base name attempt)
  then show ?case by (subst uniqueName.simps) simp
qed

lemma sanitizeLoop_distinct:
  "distinct (map toLowerCase (sanitizeLoop hs idx used)) \<and>
   set (map toLowerCase (sanitizeLoop hs idx used)) \<inter> set used = {}"
proof (induction hs arbitrary: idx used)
  case Nil
  then show ?case by simp
next
  case (Cons h hs)
  define base where "base = (if trim h \<noteq> [] then trim h else ''col'' @ showNat (idx + 1))"
  define name where "name = uniqueName used base base 1"
  have eq: "sanitizeLoop (h # hs) idx used
              = name # sanitizeLoop hs (idx + 1) (toLowerCase name # used)"
    by (simp add: Let_def base_def name_def)
  have fresh: "toLowerCase name \<notin> set used" unfolding name_def by (rule uniqueName_fresh)
  from Cons.IH[of "idx + 1" "toLowerCase name # used"]
  show ?case unfolding eq using fresh by auto
qed

lemma sanitizeHeaders_distinct: "distinct (map toLowerCase (sanitizeHeaders hs))"
  using sanitizeLoop_distinct[of hs 0 "[]"] by (simp add: sanitizeHeaders_def)

lemma update_fresh: "k \<notin> fst ` set r \<Longrightarrow> AList.update k v r = r @ [(k, v)]"
  by (induction r) auto

lemma setProp_fresh:
  "k \<notin> fst ` set r \<Longrightarrow> setProp k v r = (if k = ''__proto__'' then r else r @ [(k, v)])"
  by (simp add: setProp_def update_fresh)

lemma mkRow_fold:
  assumes "distinct hs" "set hs \<inter> fst ` set acc = {}" "length hs = length js"
  shows "foldl (\<lambda>r (h, idx). setProp h (g idx) r) acc (zip hs js)
           = acc @ filter (\<lambda>p. fst p \<noteq> ''__proto__'') (zip hs (map g js))"
  using assms
proof (induction hs arbitrary: acc js)
  case Nil
  then show ?case by simp
next
  case (Cons h hs)
  then obtain i js' where js: "js = i # js'" by (cases js) auto
  have fresh: "h \<notin> fst ` set acc" using Cons.prems by auto
  define acc' where "acc' = (if h = ''__proto__'' then acc else acc @ [(h, g i)])"
  have step: "setProp h (g i) acc = acc'"
    by (simp add: acc'_def setProp_fresh[OF fresh])
  have "foldl (\<lambda>r (h, idx). setProp h (g idx) r) acc' (zip hs js')
        = acc' @ filter (\<lambda>p. fst p \<noteq> ''__proto__'') (zip hs (map g js'))"
    using Cons.prems js by (intro Cons.IH) (auto simp: acc'_def)
  then show ?case by (simp add: js step acc'_def)
qed

text \<open>With pairwise different headers a row is the headers zipped with the padded cells,
  without the pair of the header \<^verbatim>\<open>__proto__\<close>.\<close>

lemma mkRow_zip:
  assumes "distinct hs"
  shows "mkRow hs cells
           = filter (\<lambda>p. fst p \<noteq> ''__proto__'')
               (zip hs (take (length hs) (cells @ replicate (length hs - length cells) [])))"
proof -
  let ?padded = "cells @ replicate (length hs - length cells) []"
  have len: "length hs \<le> length ?padded" by simp
  have "mkRow hs cells
          = filter (\<lambda>p. fst p \<noteq> ''__proto__'')
              (zip hs (map (\<lambda>idx. if idx < length ?padded then ?padded ! idx else []) [0..<length hs]))"
    using mkRow_fold[OF assms, of "[]" "[0..<length hs]"
            "\<lambda>idx. if idx < length ?padded then ?padded ! idx else []"]
    by (simp add: mkRow_def Let_def)
  also have "map (\<lambda>idx. if idx < length ?padded then ?padded ! idx else []) [0..<length hs]
               = take (length hs) ?padded"
    using len by (rule_tac nth_equalityI) (simp_all del: take_append)
  finally show ?thesis .
qed

lemma mkRow_keys:
  assumes "distinct hs"
  shows "map fst (mkRow hs cells) = filter (\<lambda>h. h \<noteq> ''__proto__'') hs"
proof -
  define vs where "vs = take (length hs) (cells @ replicate (length hs - length cells) [])"
  have l: "length vs = length hs" by (simp add: vs_def)
  have "mkRow hs cells = filter (\<lambda>p. fst p \<noteq> ''__proto__'') (zip hs vs)"
    unfolding vs_def by (rule mkRow_zip[OF assms])
  then have "map fst (mkRow hs cells) = filter (\<lambda>h. h \<noteq> ''__proto__'') (map fst (zip hs vs))"
    by (simp add: filter_map comp_def)
  then show ?thesis using l by simp
qed

lemma map_of_filter_key: "P k \<Longrightarrow> map_of (filter (\<lambda>p. P (fst p)) xs) k = map_of xs k"
  by (induction xs) auto

lemma mkRow_value:
  assumes "distinct hs" "j < length hs" "hs ! j \<noteq> ''__proto__''"
  shows "getProp (mkRow hs cells) (hs ! j) = Str (if j < length cells then cells ! j else [])"
proof -
  define vs where "vs = take (length hs) (cells @ replicate (length hs - length cells) [])"
  have l: "length hs = length vs" by (simp add: vs_def)
  have j: "j < length vs" using assms(2) l by simp
  have m: "mkRow hs cells = filter (\<lambda>p. fst p \<noteq> ''__proto__'') (zip hs vs)"
    unfolding vs_def by (rule mkRow_zip[OF assms(1)])
  have "map_of (mkRow hs cells) (hs ! j) = map_of (zip hs vs) (hs ! j)"
    unfolding m
    using map_of_filter_key[of "\<lambda>k. k \<noteq> ''__proto__''" "hs ! j" "zip hs vs"] assms(3) by simp
  also have "\<dots> = Some (vs ! j)"
    by (rule map_of_zip_nth[OF l assms(1) j])
  also have "vs ! j = (if j < length cells then cells ! j else [])"
    using assms(2) by (simp add: vs_def nth_append del: take_append)
  finally show ?thesis by (simp add: getProp_def)
qed

lemma parseCsv_shape:
  "\<exists>raw cs. parseCsv text =
      \<lparr>headers = sanitizeHeaders raw, rows = map (mkRow (sanitizeHeaders raw)) cs, rawHeaders = raw\<rparr>"
proof (cases "filter (\<lambda>l. trim l \<noteq> []) (map trimEnd (splitOn (CHR 0x0A) (replaceCRLF text))) = []")
  case True
  then have "parseCsv text =
      \<lparr>headers = sanitizeHeaders [], rows = map (mkRow (sanitizeHeaders [])) [], rawHeaders = []\<rparr>"
    by (simp add: parseCsv_def sanitizeHeaders_def)
  then show ?thesis by blast
next
  case False
  then show ?thesis
    by (simp add: parseCsv_def Let_def split: prod.split) blast
qed

lemma not_all_blank: "(\<not> list_all (\<lambda>cell. trim cell = []) cells) = list_ex (\<lambda>cell. trim cell \<noteq> []) cells"
  by (simp add: list_all_iff list_ex_iff)

lemma parseCsv_rows:
  "rows (parseCsv text) = map (mkRow (headers (parseCsv text))) (dataCells text)"
proof (cases "filter (\<lambda>l. trim l \<noteq> []) (map trimEnd (splitOn (CHR 0x0A) (replaceCRLF text))) = []")
  case True
  then show ?thesis by (simp add: parseCsv_def dataCells_def tokenLines_def)
next
  case False
  then show ?thesis
    by (simp add: parseCsv_def dataCells_def tokenLines_def Let_def not_all_blank split: prod.split)
qed

lemma parseCsv_headers_distinct: "distinct (map toLowerCase (headers (parseCsv text)))"
proof -
  obtain raw cs where "parseCsv text =
      \<lparr>headers = sanitizeHeaders raw, rows = map (mkRow (sanitizeHeaders raw)) cs, rawHeaders = raw\<rparr>"
    using parseCsv_shape by blast
  then show ?thesis by (simp add: sanitizeHeaders_distinct)
qed

lemma set_jsKeyOrder: "set (jsKeyOrder ks) = set ks"
  by (auto simp: jsKeyOrder_def)

lemma length_jsKeyOrder: "length (jsKeyOrder ks) = length ks"
  by (simp add: jsKeyOrder_def sum_length_filter_compl)

lemma paddingExample_parse:
  "parseCsv paddingExampleText =
     \<lparr>headers = [''Qty'', ''qty_1'', ''Branch''],
      rows = [[(''Qty'', ''1''), (''qty_1'', ''2''), (''Branch'', [])]],
      rawHeaders = [''Qty'', ''qty'', ''Branch'']\<rparr>"
  unfolding paddingExampleText_def by code_simp

lemma paddingExample_cells: "dataCells paddingExampleText = [[''1'', ''2'']]"
  unfolding paddingExampleText_def by code_simp

text \<open>Claim C8. For every input text the headers of the parsed table are pairwise different
  even after lowercasing, and there is one row per data line. The keys of every row are the
  headers other than \<^verbatim>\<open>__proto__\<close>, listed as the language lists the keys of an object,
  and at every such header the row holds the cell of its data line at the header's position,
  or the empty string when the line is too short. So a row has exactly the headers as its
  keys whenever no header is \<^verbatim>\<open>__proto__\<close>.\<close>

theorem parsed_table_invariant:
  "distinct (map toLowerCase (headers (parseCsv text)))
   \<and> length (rows (parseCsv text)) = length (dataCells text)
   \<and> (\<forall>i<length (rows (parseCsv text)).
        ownKeys (rows (parseCsv text) ! i)
          = jsKeyOrder (filter (\<lambda>h. h \<noteq> ''__proto__'') (headers (parseCsv text)))
        \<and> set (ownKeys (rows (parseCsv text) ! i)) = set (headers (parseCsv text)) - {''__proto__''}
        \<and> (\<forall>j<length (headers (parseCsv text)).
              headers (parseCsv text) ! j \<noteq> ''__proto__'' \<longrightarrow>
                getProp (rows (parseCsv text) ! i) (headers (parseCsv text) ! j)
                  = Str (if j < length (dataCells text ! i) then dataCells text ! i ! j else [])))
   \<and> (''__proto__'' \<notin> set (headers (parseCsv text)) \<longrightarrow>
        (\<forall>r\<in>set (rows (parseCsv text)).
           set (ownKeys r) = set (headers (parseCsv text))
           \<and> length (ownKeys r) = length (headers (parseCsv text))))"
proof -
  let ?hs = "headers (parseCsv text)"
  have d: "distinct (map toLowerCase ?hs)" by (rule parseCsv_headers_distinct)
  then have d': "distinct ?hs" by (simp add: distinct_map)
  have rws: "rows (parseCsv text) = map (mkRow ?hs) (dataCells text)" by (rule parseCsv_rows)
  have len: "length (rows (parseCsv text)) = length (dataCells text)" by (simp add: rws)
  have keys: "ownKeys (mkRow ?hs cells) = jsKeyOrder (filter (\<lambda>h. h \<noteq> ''__proto__'') ?hs)" for cells
    by (simp add: ownKeys_def mkRow_keys[OF d'])
  have keyset: "set (ownKeys (mkRow ?hs cells)) = set ?hs - {''__proto__''}" for cells
    unfolding keys set_jsKeyOrder by auto
  have rowwise: "\<forall>i<length (rows (parseCsv text)).
        ownKeys (rows (parseCsv text) ! i) = jsKeyOrder (filter (\<lambda>h. h \<noteq> ''__proto__'') ?hs)
        \<and> set (ownKeys (rows (parseCsv text) ! i)) = set ?hs - {''__proto__''}
        \<and> (\<forall>j<length ?hs. ?hs ! j \<noteq> ''__proto__'' \<longrightarrow>
              getProp (rows (parseCsv text) ! i) (?hs ! j)
                = Str (if j < length (dataCells text ! i) then dataCells text ! i ! j else []))"
  proof (intro allI impI conjI)
    fix i assume i: "i < length (rows (parseCsv text))"
    then have ri: "rows (parseCsv text) ! i = mkRow ?hs (dataCells text ! i)"
      by (simp add: rws)
    show "ownKeys (rows (parseCsv text) ! i) = jsKeyOrder (filter (\<lambda>h. h \<noteq> ''__proto__'') ?hs)"
      unfolding ri by (rule keys)
    show "set (ownKeys (rows (parseCsv text) ! i)) = set ?hs - {''__proto__''}"
      unfolding ri by (rule keyset)
    fix j assume "j < length ?hs" "?hs ! j \<noteq> ''__proto__''"
    then show "getProp (rows (parseCsv text) ! i) (?hs ! j)
                = Str (if j < length (dataCells text ! i) then dataCells text ! i ! j else [])"
      unfolding ri by (rule mkRow_value[OF d'])
  qed
  have noproto: "''__proto__'' \<notin> set ?hs \<longrightarrow>
        (\<forall>r\<in>set (rows (parseCsv text)). set (ownKeys r) = set ?hs \<and> length (ownKeys r) = length ?hs)"
  proof (intro impI ballI)
    fix r assume np: "''__proto__'' \<notin> set ?hs" and "r \<in> set (rows (parseCsv text))"
    then obtain cells where r: "r = mkRow ?hs cells" unfolding rws by auto
    from np have f: "filter (\<lambda>h. h \<noteq> ''__proto__'') ?hs = ?hs"
      by (intro filter_True) auto
    show "set (ownKeys r) = set ?hs \<and> length (ownKeys r) = length ?hs"
      unfolding r keys f by (simp add: set_jsKeyOrder length_jsKeyOrder)
  qed
  show ?thesis by (intro conjI d len rowwise noproto)
qed

text \<open>The theorem at a header with a case-insensitive duplicate and a short data line: the
  third cell is missing and the row holds the empty string under \<^verbatim>\<open>Branch\<close>.\<close>

theorem parsed_table_invariant_witness:
  "headers (parseCsv paddingExampleText) = [''Qty'', ''qty_1'', ''Branch'']
   \<and> dataCells paddingExampleText = [[''1'', ''2'']]
   \<and> length (rows (parseCsv paddingExampleText)) = 1
   \<and> distinct (map toLowerCase (headers (parseCsv paddingExampleText)))
   \<and> set (ownKeys (rows (parseCsv paddingExampleText) ! 0)) = {''Qty'', ''qty_1'', ''Branch''}
   \<and> getProp (rows (parseCsv paddingExampleText) ! 0) ''qty_1'' = Str ''2''
   \<and> getProp (rows (parseCsv paddingExampleText) ! 0) ''Branch'' = Str []"
proof -
  have h: "headers (parseCsv paddingExampleText) = [''Qty'', ''qty_1'', ''Branch'']"
    by (simp add: paddingExample_parse)
  note c = paddingExample_cells
  note t = parsed_table_invariant[of paddingExampleText]
  from t have d: "distinct (map toLowerCase (headers (parseCsv paddingExampleText)))"
    by (rule conjunct1)
  from t have "length (rows (parseCsv paddingExampleText)) = length (dataCells paddingExampleText)"
    by (rule conjunct2[THEN conjunct1])
  then have l: "length (rows (parseCsv paddingExampleText)) = 1" by (simp add: c)
  have i0: "0 < length (rows (parseCsv paddingExampleText))" using l by simp
  note r0 = t[THEN conjunct2, THEN conjunct2, THEN conjunct1, rule_format, OF i0]
  note ks = r0[THEN conjunct2, THEN conjunct1]
  note vs = r0[THEN conjunct2, THEN conjunct2]
  from ks have k: "set (ownKeys (rows (parseCsv paddingExampleText) ! 0)) = {''Qty'', ''qty_1'', ''Branch''}"
    unfolding h by auto
  from vs[rule_format, of 1]
  have v1: "getProp (rows (parseCsv paddingExampleText) ! 0) ''qty_1'' = Str ''2''"
    unfolding h c by simp
  from vs[rule_format, of 2]
  have v2: "getProp (rows (parseCsv paddingExampleText) ! 0) ''Branch'' = Str []"
    unfolding h c by simp
  show ?thesis using h c l d k v1 v2 by simp
qed

lemma protoExample_parse:
  "parseCsv protoExampleText =
     \<lparr>headers = [''__proto__'', ''Name'', ''Qty''],
      rows = [[(''Name'', ''b''), (''Qty'', ''3'')]],
      rawHeaders = [''__proto__'', ''Name'', ''Qty'']\<rparr>"
  unfolding protoExampleText_def by code_simp

text \<open>A header named \<^verbatim>\<open>__proto__\<close> is not a key of the rows. For the file
  \<^verbatim>\<open>__proto__,Name,Qty\<close> / \<^verbatim>\<open>a,b,3\<close> the table has three headers and its row has the
  two keys \<^verbatim>\<open>Name\<close> and \<^verbatim>\<open>Qty\<close>: the cell \<^verbatim>\<open>a\<close> is lost, and reading the row at
  \<^verbatim>\<open>__proto__\<close> gives the prototype object.\<close>

theorem parsed_table_proto_counterexample:
  "headers (parseCsv protoExampleText) = [''__proto__'', ''Name'', ''Qty'']
   \<and> rows (parseCsv protoExampleText) = [[(''Name'', ''b''), (''Qty'', ''3'')]]
   \<and> ownKeys (hd (rows (parseCsv protoExampleText))) = [''Name'', ''Qty'']
   \<and> ''__proto__'' \<in> set (headers (parseCsv protoExampleText))
   \<and> ''__proto__'' \<notin> set (ownKeys (hd (rows (parseCsv protoExampleText))))
   \<and> getProp (hd (rows (parseCsv protoExampleText))) ''__proto__'' = ObjectPrototype"
proof -
  have k: "ownKeys [(''Name'', ''b''), (''Qty'', ''3'')] = [''Name'', ''Qty'']"
    by (simp add: ownKeys_def jsKeyOrder_def isArrayIndex_def isDigit_def)
  have g: "getProp [(''Name'', ''b''), (''Qty'', ''3'')] ''__proto__'' = ObjectPrototype"
    by (simp add: getProp_def)
  show ?thesis unfolding protoExample_parse using k g by simp
qed

section \<open>Properties of filtering\<close>

text \<open>Claim C5. \<^verbatim>\<open>filteredRows\<close> keeps, in order, exactly the records that pass the
  specification's test, where a value matches a filter by equality of strings; and when the
  branch key (the area key) is not set, the branch filter (the area filter) has no effect
  on the result, whatever its value.\<close>

theorem filtering_by_equality:
  "filteredRows dataRows f m = filter (passes f m) dataRows
   \<and> (\<not> truthy (branchKey m) \<longrightarrow>
        filteredRows dataRows (f\<lparr>filterBranch := v\<rparr>) m = filteredRows dataRows f m)
   \<and> (\<not> truthy (areaKey m) \<longrightarrow>
        filteredRows dataRows (f\<lparr>filterArea := v\<rparr>) m = filteredRows dataRows f m)"
  by (auto simp: filteredRows_def passes_def Let_def intro!: filter_cong)

text \<open>The theorem at a schema without a branch key: the branch filter \<^verbatim>\<open>East\<close> rejects
  nothing, the area filter \<^verbatim>\<open>North\<close> keeps the record of area \<^verbatim>\<open>North\<close> and not the one
  of area \<^verbatim>\<open>north\<close>.\<close>

theorem filtering_by_equality_witness:
  "\<not> truthy (branchKey filterExampleMeta)
   \<and> filteredRows filterExampleRows filterExampleFilters filterExampleMeta
       = [\<lparr>product = ''A'', item = [], branch = [], area = ''North'', metric = Finite 3\<rparr>]
   \<and> filteredRows filterExampleRows (filterExampleFilters\<lparr>filterBranch := ''West''\<rparr>)
         filterExampleMeta
       = filteredRows filterExampleRows filterExampleFilters filterExampleMeta"
proof -
  have nb: "\<not> truthy (branchKey filterExampleMeta)" by (simp add: filterExampleMeta_def)
  have "filteredRows filterExampleRows filterExampleFilters filterExampleMeta
          = filter (passes filterExampleFilters filterExampleMeta) filterExampleRows"
    using filtering_by_equality[of filterExampleRows filterExampleFilters filterExampleMeta]
    by blast
  also have "\<dots> = [\<lparr>product = ''A'', item = [], branch = [], area = ''North'', metric = Finite 3\<rparr>]"
    by (simp add: passes_def filterExampleRows_def filterExampleFilters_def filterExampleMeta_def)
  finally have a: "filteredRows filterExampleRows filterExampleFilters filterExampleMeta
          = [\<lparr>product = ''A'', item = [], branch = [], area = ''North'', metric = Finite 3\<rparr>]" .
  have b: "filteredRows filterExampleRows (filterExampleFilters\<lparr>filterBranch := ''West''\<rparr>)
             filterExampleMeta
           = filteredRows filterExampleRows filterExampleFilters filterExampleMeta"
    using filtering_by_equality[of filterExampleRows filterExampleFilters filterExampleMeta
            "''West''"] nb
    by blast
  show ?thesis using nb a b by blast
qed

section \<open>Properties of the Schema Inferencer\<close>

subsection \<open>The synthetic product label\<close>

text \<open>The label is the first raw header that passes the denylist, and the default otherwise:
  after \<^verbatim>\<open>productish || 'All Products'\<close> the label is never empty, so the assignment of
  the metric key on line 596 cannot run.\<close>

lemma find_Some_member: "find P xs = Some x \<Longrightarrow> x \<in> set xs \<and> P x"
  by (induction xs) (auto split: if_splits)

lemma chooseSyntheticLabel_cases:
  "chooseSyntheticLabel raw k =
     (case find isProductish (filter (\<lambda>h. h \<noteq> []) (map trim raw)) of
        None \<Rightarrow> ''All Products'' | Some h \<Rightarrow> h)"
proof (cases "find isProductish (filter (\<lambda>h. h \<noteq> []) (map trim raw))")
  case None
  then show ?thesis by (simp add: chooseSyntheticLabel_def Let_def)
next
  case (Some h)
  then have "h \<in> set (filter (\<lambda>h. h \<noteq> []) (map trim raw))"
    by (rule find_Some_member[THEN conjunct1])
  then have "h \<noteq> []" by simp
  with Some show ?thesis by (simp add: chooseSyntheticLabel_def Let_def)
qed

lemma labelExample_parse:
  "parseCsv labelExampleText =
     \<lparr>headers = [''Total'', ''Qty''], rows = [[(''Total'', ''x''), (''Qty'', ''y'')]],
      rawHeaders = [''Total'', ''Qty'']\<rparr>"
  unfolding labelExampleText_def by code_simp

text \<open>Claim C1, at the file \<^verbatim>\<open>Total,Qty\<close> / \<^verbatim>\<open>x,y\<close>: no product key and no product
  columns, so the product is synthetic; both raw headers are on the denylist and the metric
  key is \<^verbatim>\<open>Total\<close>; the label is nevertheless \<^verbatim>\<open>All Products\<close>, not the metric key.\<close>

theorem synthetic_label_ignores_metric_key:
  "headers (parseCsv labelExampleText) = [''Total'', ''Qty'']
   \<and> rows (parseCsv labelExampleText) = [[(''Total'', ''x''), (''Qty'', ''y'')]]
   \<and> rawHeaders (parseCsv labelExampleText) = [''Total'', ''Qty'']
   \<and> syntheticProduct
        (detectColumns [''Total'', ''Qty''] [[(''Total'', ''x''), (''Qty'', ''y'')]] [''Total'', ''Qty''])
   \<and> find isProductish (filter (\<lambda>h. h \<noteq> []) (map trim [''Total'', ''Qty''])) = None
   \<and> metricKey
        (detectColumns [''Total'', ''Qty''] [[(''Total'', ''x''), (''Qty'', ''y'')]] [''Total'', ''Qty''])
       = Some ''Total''
   \<and> syntheticProductLabel
        (detectColumns [''Total'', ''Qty''] [[(''Total'', ''x''), (''Qty'', ''y'')]] [''Total'', ''Qty''])
       = ''All Products''"
  unfolding labelExample_parse by code_simp

subsection \<open>Product columns\<close>

lemma slice_band: "slice 2 (min (length hs) 7) hs = take 5 (drop 2 hs)"
  by (cases "7 \<le> length hs") (simp_all add: slice_def min_def)

lemma slice_2_7: "slice 2 7 hs = take 5 (drop 2 hs)"
  by (simp add: slice_def)

lemma productColumns_detectColumns:
  "productColumns (detectColumns hs rs raw) =
     detectProductColumns hs (filter (\<lambda>h. list_ex (\<lambda>r. looksNumeric (getProp r h)) rs) hs)
       [productKey (detectColumns hs rs raw), branchKey (detectColumns hs rs raw),
        areaKey (detectColumns hs rs raw), itemKey (detectColumns hs rs raw)]"
  by (simp add: detectColumns_def Let_def)

lemma fixedMatch_nonempty_filter:
  "filter (\<lambda>h. toLowerCase h \<in> set fixedProducts) (filter (\<lambda>h. h \<noteq> []) xs)
     = filter (\<lambda>h. toLowerCase h \<in> set fixedProducts) xs"
proof -
  have "\<And>h. toLowerCase h \<in> set fixedProducts \<Longrightarrow> h \<noteq> []"
    by (auto simp: fixedProducts_def toLowerCase_def)
  then show ?thesis by (auto intro: filter_cong)
qed

lemma detectProductColumns_fixed:
  assumes "filter (\<lambda>h. toLowerCase h \<in> set fixedProducts) (take 5 (drop 2 hs)) \<noteq> []"
  shows "detectProductColumns hs nh keys
           = filter (\<lambda>h. toLowerCase h \<in> set fixedProducts) (take 5 (drop 2 hs))"
  using assms fixedMatch_nonempty_filter[of "take 5 (drop 2 hs)"]
  by (simp add: detectProductColumns_def Let_def slice_2_7)

lemma detectProductColumns_fallback:
  assumes "filter (\<lambda>h. toLowerCase h \<in> set fixedProducts) (take 5 (drop 2 hs)) = []"
    and "filter (\<lambda>h. toLowerCase h \<notin> set (map (\<lambda>k. toLowerCase (the k)) (filter truthy keys))) nh = []"
    and "3 \<le> length hs"
  shows "detectProductColumns hs nh keys
           = filter (\<lambda>h. h \<noteq> [] \<and> trim h \<noteq> []) (take 5 (drop 2 hs))"
  using assms fixedMatch_nonempty_filter[of "take 5 (drop 2 hs)"]
  by (simp add: detectProductColumns_def Let_def slice_2_7 slice_band)

text \<open>Claim C6. Write \<open>band\<close> for the headers at positions 3 to 7 and \<open>fixed\<close> for those of
  them whose lowercased name is in the product vocabulary. If \<open>fixed\<close> is not empty, the
  product columns are exactly \<open>fixed\<close>, whatever the rows hold. If \<open>fixed\<close> is empty, no
  numeric header is left after removing the reserved keys, and there are at least three
  headers, the product columns are the headers of \<open>band\<close> that are not blank, which for
  trimmed headers (those the Tokenizer produces) are the non-empty ones.\<close>

theorem product_columns_detection:
  "(filter (\<lambda>h. toLowerCase h \<in> set fixedProducts) (take 5 (drop 2 hs)) \<noteq> [] \<longrightarrow>
      productColumns (detectColumns hs rs raw)
        = filter (\<lambda>h. toLowerCase h \<in> set fixedProducts) (take 5 (drop 2 hs)))
   \<and> (filter (\<lambda>h. toLowerCase h \<in> set fixedProducts) (take 5 (drop 2 hs)) = []
       \<and> filter (\<lambda>h. toLowerCase h \<notin> set (map (\<lambda>k. toLowerCase (the k))
                    (filter truthy [productKey (detectColumns hs rs raw),
                                    branchKey (detectColumns hs rs raw),
                                    areaKey (detectColumns hs rs raw),
                                    itemKey (detectColumns hs rs raw)])))
           (filter (\<lambda>h. list_ex (\<lambda>r. looksNumeric (getProp r h)) rs) hs) = []
       \<and> 3 \<le> length hs \<longrightarrow>
      productColumns (detectColumns hs rs raw)
        = filter (\<lambda>h. h \<noteq> [] \<and> trim h \<noteq> []) (take 5 (drop 2 hs))
      \<and> ((\<forall>h\<in>set hs. trim h = h) \<longrightarrow>
           productColumns (detectColumns hs rs raw) = filter (\<lambda>h. h \<noteq> []) (take 5 (drop 2 hs))))"
proof (intro conjI impI)
  assume "filter (\<lambda>h. toLowerCase h \<in> set fixedProducts) (take 5 (drop 2 hs)) \<noteq> []"
  then show "productColumns (detectColumns hs rs raw)
        = filter (\<lambda>h. toLowerCase h \<in> set fixedProducts) (take 5 (drop 2 hs))"
    unfolding productColumns_detectColumns by (rule detectProductColumns_fixed)
next
  assume a: "filter (\<lambda>h. toLowerCase h \<in> set fixedProducts) (take 5 (drop 2 hs)) = []
       \<and> filter (\<lambda>h. toLowerCase h \<notin> set (map (\<lambda>k. toLowerCase (the k))
                    (filter truthy [productKey (detectColumns hs rs raw),
                                    branchKey (detectColumns hs rs raw),
                                    areaKey (detectColumns hs rs raw),
                                    itemKey (detectColumns hs rs raw)])))
           (filter (\<lambda>h. list_ex (\<lambda>r. looksNumeric (getProp r h)) rs) hs) = []
       \<and> 3 \<le> length hs"
  then show g: "productColumns (detectColumns hs rs raw)
                  = filter (\<lambda>h. h \<noteq> [] \<and> trim h \<noteq> []) (take 5 (drop 2 hs))"
    unfolding productColumns_detectColumns by (intro detectProductColumns_fallback) blast+
  assume t: "\<forall>h\<in>set hs. trim h = h"
  have "filter (\<lambda>h. h \<noteq> [] \<and> trim h \<noteq> []) (take 5 (drop 2 hs))
          = filter (\<lambda>h. h \<noteq> []) (take 5 (drop 2 hs))"
  proof (rule filter_cong[OF refl])
    fix h assume "h \<in> set (take 5 (drop 2 hs))"
    then have "h \<in> set hs" by (meson in_set_dropD in_set_takeD)
    with t show "(h \<noteq> [] \<and> trim h \<noteq> []) = (h \<noteq> [])" by auto
  qed
  with g show "productColumns (detectColumns hs rs raw) = filter (\<lambda>h. h \<noteq> []) (take 5 (drop 2 hs))"
    by simp
qed

text \<open>The theorem at a header with two vocabulary names around a numeric \<^verbatim>\<open>Qty\<close> column
  (which the fixed match leaves out), and at a header without vocabulary names over rows
  without numbers.\<close>

theorem product_columns_detection_witness:
  "filter (\<lambda>h. toLowerCase h \<in> set fixedProducts) (take 5 (drop 2 bandExampleHeaders)) \<noteq> []
   \<and> productColumns (detectColumns bandExampleHeaders
         [[(''Area'', ''N''), (''Branch'', ''East''), (''Backribs'', ''10''), (''Qty'', ''3''),
           (''Spareribs'', ''5'')]] bandExampleHeaders)
       = [''Backribs'', ''Spareribs'']
   \<and> filter (\<lambda>h. toLowerCase h \<in> set fixedProducts) (take 5 (drop 2 fallbackExampleHeaders)) = []
   \<and> 3 \<le> length fallbackExampleHeaders
   \<and> list_all (\<lambda>h. trim h = h) fallbackExampleHeaders
   \<and> productColumns (detectColumns fallbackExampleHeaders fallbackExampleRows fallbackExampleHeaders)
       = [''Notes'', ''Remarks'']"
proof -
  have f1: "filter (\<lambda>h. toLowerCase h \<in> set fixedProducts) (take 5 (drop 2 bandExampleHeaders))
              = [''Backribs'', ''Spareribs'']"
    unfolding bandExampleHeaders_def by code_simp
  have r1: "productColumns (detectColumns bandExampleHeaders
         [[(''Area'', ''N''), (''Branch'', ''East''), (''Backribs'', ''10''), (''Qty'', ''3''),
           (''Spareribs'', ''5'')]] bandExampleHeaders)
       = [''Backribs'', ''Spareribs'']"
    using product_columns_detection[of bandExampleHeaders
         "[[(''Area'', ''N''), (''Branch'', ''East''), (''Backribs'', ''10''), (''Qty'', ''3''),
           (''Spareribs'', ''5'')]]" bandExampleHeaders] f1
    by simp
  have h2: "filter (\<lambda>h. toLowerCase h \<in> set fixedProducts) (take 5 (drop 2 fallbackExampleHeaders)) = []
       \<and> filter (\<lambda>h. toLowerCase h \<notin> set (map (\<lambda>k. toLowerCase (the k))
            (filter truthy
               [productKey (detectColumns fallbackExampleHeaders fallbackExampleRows fallbackExampleHeaders),
                branchKey (detectColumns fallbackExampleHeaders fallbackExampleRows fallbackExampleHeaders),
                areaKey (detectColumns fallbackExampleHeaders fallbackExampleRows fallbackExampleHeaders),
                itemKey (detectColumns fallbackExampleHeaders fallbackExampleRows fallbackExampleHeaders)])))
           (filter (\<lambda>h. list_ex (\<lambda>r. looksNumeric (getProp r h)) fallbackExampleRows)
              fallbackExampleHeaders) = []
       \<and> 3 \<le> length fallbackExampleHeaders"
    unfolding fallbackExampleHeaders_def fallbackExampleRows_def by code_simp
  have t2: "list_all (\<lambda>h. trim h = h) fallbackExampleHeaders"
    unfolding fallbackExampleHeaders_def by code_simp
  then have t2': "\<forall>h\<in>set fallbackExampleHeaders. trim h = h" by (simp add: list_all_iff)
  have "productColumns (detectColumns fallbackExampleHeaders fallbackExampleRows fallbackExampleHeaders)
          = filter (\<lambda>h. h \<noteq> []) (take 5 (drop 2 fallbackExampleHeaders))"
    using product_columns_detection[of fallbackExampleHeaders fallbackExampleRows
            fallbackExampleHeaders] h2 t2'
    by blast
  also have "\<dots> = [''Notes'', ''Remarks'']"
    by (simp add: fallbackExampleHeaders_def)
  finally have r2: "productColumns (detectColumns fallbackExampleHeaders fallbackExampleRows
                      fallbackExampleHeaders) = [''Notes'', ''Remarks'']" .
  show ?thesis using f1 r1 h2 t2 r2 by simp
qed

subsection \<open>Insufficient schema\<close>









section \<open>Properties of numbers\<close>

text \<open>Integers of absolute value up to \<open>2^53\<close> are binary64 values: rounding leaves them
  unchanged, so sums of such integers that stay in this range are exact.\<close>

lemma bits_bounds:
  "0 < n \<Longrightarrow> 2 ^ (bits n - 1) \<le> n \<and> n < 2 ^ bits n"
proof (induction n rule: bits.induct)
  case (1 n)
  show ?case
  proof (cases "n div 2 = 0")
    case True
    with 1(2) have "n = 1" by (simp add: div_eq_0_iff) 
    moreover have "bits (Suc 0) = 1" by (simp add: bits.simps[of "Suc 0"] bits.simps[of 0])
    ultimately show ?thesis by simp
  next
    case False
    then have pos: "0 < n div 2" by simp
    from 1(1)[OF _ pos] 1(2)
    have ih: "2 ^ (bits (n div 2) - 1) \<le> n div 2" "n div 2 < 2 ^ bits (n div 2)" by auto
    have b: "bits n = Suc (bits (n div 2))" using 1(2) by (subst bits.simps) simp
    have bp: "0 < bits (n div 2)" using pos by (subst bits.simps) simp
    then have e: "2 ^ bits (n div 2) = 2 * 2 ^ (bits (n div 2) - 1)"
      by (metis Suc_pred' power_Suc)
    have "2 * 2 ^ (bits (n div 2) - 1) \<le> 2 * (n div 2)" using ih(1) by simp
    also have "\<dots> \<le> n" by simp
    finally have lo: "2 ^ (bits n - 1) \<le> n" by (simp add: b e)
    have "n < 2 * (n div 2) + 2" by presburger
    also have "\<dots> \<le> 2 * 2 ^ bits (n div 2)" using ih(2) by simp
    finally have hi: "n < 2 ^ bits n" by (simp add: b)
    show ?thesis using lo hi by simp
  qed
qed

lemma roundHalfEven_of_int: "roundHalfEven (of_int k) = k"
  by (simp add: roundHalfEven_def Let_def)

lemma pow2_pos: "0 < pow2 k"
  by (simp add: pow2_def)

lemma pow2_nat: "pow2 (int n) = 2 ^ n"
  by (simp add: pow2_def)

lemma roundDouble_nat:
  assumes "0 < n" "n \<le> 2 ^ 53"
  shows "of_int (roundHalfEven (of_nat n / pow2 (max (binexp (of_nat n)) (- 1022) - 52)))
           * pow2 (max (binexp (of_nat n)) (- 1022) - 52) = (of_nat n :: rat)"
proof -
  define e where "e = int (bits n) - 1"
  have one: "(1::rat) \<le> of_nat n" using assms(1) by simp
  have be: "binexp (of_nat n) = e"
    using one by (simp add: binexp_def e_def)
  from bits_bounds[OF assms(1)] have bb: "2 ^ (bits n - 1) \<le> n" "n < 2 ^ bits n" by auto
  have bpos: "0 < bits n" using assms(1) by (subst bits.simps) simp
  have "2 ^ (bits n - 1) \<le> (2::nat) ^ 53" using bb(1) assms(2) by linarith
  then have b54: "bits n - 1 \<le> 53" by (rule power_le_imp_le_exp[rotated]) simp
  have e0: "0 \<le> e" using bpos by (simp add: e_def)
  have mx: "max (binexp (of_nat n)) (- 1022) = e" using be e0 by simp
  have "of_int (roundHalfEven (of_nat n / pow2 (e - 52))) * pow2 (e - 52) = (of_nat n :: rat)"
  proof (cases "bits n - 1 \<le> 52")
    case True
    define j where "j = 52 - (bits n - 1)"
    have "e - 52 = - int j" using True bpos by (simp add: j_def e_def)
    then have q: "pow2 (e - 52) = 1 / 2 ^ j" by (simp add: pow2_def)
    have "(of_nat n :: rat) / pow2 (e - 52) = of_int (int (n * 2 ^ j))"
      unfolding q by simp
    then have "roundHalfEven (of_nat n / pow2 (e - 52)) = int (n * 2 ^ j)"
      by (simp only: roundHalfEven_of_int)
    then show ?thesis unfolding q by simp
  next
    case False
    then have b: "bits n - 1 = 53" using b54 by simp
    then have "2 ^ 53 \<le> n" using bb(1) by simp
    then have n: "n = 2 ^ 53" using assms(2) by simp
    have "e - 52 = 1" using b bpos by (simp add: e_def)
    then have q: "pow2 (e - 52) = 2" by (simp add: pow2_def)
    have "(of_nat n :: rat) / 2 = of_int (2 ^ 52)" by (simp add: n)
    then have "roundHalfEven (of_nat n / 2) = 2 ^ 52" by (simp only: roundHalfEven_of_int)
    then show ?thesis unfolding q by (simp add: n)
  qed
  then show ?thesis unfolding mx .
qed

lemma roundDouble_of_int:
  assumes "\<bar>k\<bar> \<le> 2 ^ 53"
  shows "roundDouble (of_int k) = Finite (of_int k)"
proof (cases "k = 0")
  case True
  then show ?thesis by (simp add: roundDouble_def)
next
  case False
  define n where "n = nat \<bar>k\<bar>"
  define x :: rat where "x = of_int k"
  have n: "0 < n" "n \<le> 2 ^ 53" using False assms by (auto simp: n_def nat_le_iff)
  have a: "\<bar>x\<bar> = of_nat n" by (simp add: n_def x_def)
  have x0: "x \<noteq> 0" using False by (simp add: x_def)
  have "(of_nat n :: rat) \<le> 2 ^ 53" using n(2) by (metis of_nat_le_iff of_nat_numeral of_nat_power)
  also have "\<dots> < 2 ^ 1024" by simp
  finally have small: "\<not> pow2 1024 \<le> (of_nat n :: rat)" by (simp add: pow2_def)
  have sg: "(if 0 < x then (of_nat n :: rat) else - of_nat n) = x"
    using a by (auto simp: abs_if split: if_splits)
  have "roundDouble x = Finite x"
    unfolding roundDouble_def Let_def a roundDouble_nat[OF n] using x0 small sg by simp
  then show ?thesis by (simp add: x_def)
qed


section \<open>Properties of the Row Expander\<close>

















subsection \<open>The metric of a record\<close>






section \<open>Properties of the Aggregator\<close>

subsection \<open>The sign of a rounded difference\<close>

lemma pow2_powi: "pow2 k = 2 powi k"
  unfolding pow2_def power_int_def by (simp add: power_one_over)

lemma pow2_add: "pow2 (a + b) = pow2 a * pow2 b"
  unfolding pow2_powi by (simp add: power_int_add)

lemma pow2_mono: "a \<le> b \<Longrightarrow> pow2 a \<le> pow2 b"
  unfolding pow2_powi by (rule power_int_increasing) simp_all

lemma bits_pos: "0 < n \<Longrightarrow> 0 < bits n"
  by (subst bits.simps) simp

lemma binexp_lower:
  assumes "0 < a"
  shows "pow2 (binexp a) \<le> a"
proof (cases "1 \<le> a")
  case True
  define n where "n = nat \<lfloor>a\<rfloor>"
  have n: "0 < n" using True by (simp add: n_def)
  have "pow2 (binexp a) = 2 ^ (bits n - 1)"
    using True bits_pos[OF n] by (simp add: binexp_def n_def[symmetric] pow2_def nat_diff_distrib')
  also have "\<dots> \<le> of_nat n" using bits_bounds[OF n]
    by (metis of_nat_le_iff of_nat_numeral of_nat_power)
  also have "\<dots> \<le> a" using True by (simp add: n_def)
  finally show ?thesis .
next
  case False
  define m where "m = nat (\<lceil>1 / a\<rceil> - 1)"
  have inv: "1 < 1 / a" using False assms by simp
  then have c: "2 \<le> \<lceil>1 / a\<rceil>" by linarith
  then have m: "0 < m" unfolding m_def by linarith
  have "1 / a \<le> of_int \<lceil>1 / a\<rceil>" by simp
  also have "\<dots> = of_nat (m + 1)"
  proof -
    have nn: "0 \<le> \<lceil>1 / a\<rceil> - 1" using c by linarith
    have "int m = \<lceil>1 / a\<rceil> - 1" unfolding m_def using nn by (rule nat_0_le)
    then have "\<lceil>1 / a\<rceil> = int (m + 1)" by simp
    then show ?thesis by (metis of_int_of_nat_eq)
  qed
  also have "\<dots> \<le> 2 ^ bits m"
  proof -
    have "m + 1 \<le> 2 ^ bits m" using bits_bounds[OF m] by simp
    then show ?thesis by (metis of_nat_le_iff of_nat_numeral of_nat_power)
  qed
  finally have "1 / a \<le> 2 ^ bits m" .
  then have "1 / 2 ^ bits m \<le> a" using assms
    by (simp add: field_simps)
  moreover have "pow2 (binexp a) = 1 / 2 ^ bits m"
    using False by (simp add: binexp_def m_def[symmetric] pow2_def)
  ultimately show ?thesis by simp
qed

lemma roundHalfEven_ge: "1 \<le> x \<Longrightarrow> 1 \<le> roundHalfEven x"
proof -
  assume "1 \<le> x"
  then have "1 \<le> \<lfloor>x\<rfloor>" by simp
  then show ?thesis by (simp add: roundHalfEven_def Let_def)
qed

lemma roundHalfEven_nonneg: "0 \<le> x \<Longrightarrow> 0 \<le> roundHalfEven x"
proof -
  assume "0 \<le> x"
  then have "0 \<le> \<lfloor>x\<rfloor>" by simp
  then show ?thesis by (simp add: roundHalfEven_def Let_def)
qed

lemma onGrid_quantum:
  assumes "- 1022 \<le> e"
  shows "onGrid (of_int n * pow2 (e - 52))"
proof -
  have "e - 52 = (e + 1022) + (- 1074)" by simp
  then have "pow2 (e - 52) = pow2 (e + 1022) * pow2 (- 1074)" by (metis pow2_add)
  moreover have "pow2 (e + 1022) = of_int (2 ^ nat (e + 1022))"
    using assms by (simp add: pow2_def)
  ultimately have "of_int n * pow2 (e - 52) = of_int (n * 2 ^ nat (e + 1022)) * pow2 (- 1074)"
    by simp
  then show ?thesis unfolding onGrid_def by blast
qed

lemma onGrid_minus: "onGrid a \<Longrightarrow> onGrid (- a)"
  unfolding onGrid_def by (metis minus_mult_left of_int_minus)

lemma onGrid_add: "onGrid a \<Longrightarrow> onGrid b \<Longrightarrow> onGrid (a + b)"
  unfolding onGrid_def by (metis distrib_right of_int_add)

lemma onGrid_diff: "onGrid a \<Longrightarrow> onGrid b \<Longrightarrow> onGrid (a - b)"
  unfolding onGrid_def by (metis left_diff_distrib of_int_diff)

lemma onGrid_pos: 
  assumes "onGrid a" "0 < a"
  shows "pow2 (- 1074) \<le> a"
proof -
  from assms obtain k :: int where k: "a = of_int k * pow2 (- 1074)" unfolding onGrid_def by blast
  have "0 < k" using assms(2) pow2_pos[of "- 1074"] unfolding k
    by (simp add: zero_less_mult_iff)
  then have "(1::rat) \<le> of_int k" by simp
  then have "1 * pow2 (- 1074) \<le> of_int k * pow2 (- 1074)"
    using pow2_pos[of "- 1074"] by (intro mult_right_mono) simp_all
  then show ?thesis by (simp add: k)
qed

lemma isDouble_roundDouble: "isDouble (roundDouble x)"
proof (cases "x = 0")
  case True
  have "onGrid 0" unfolding onGrid_def by (intro exI[of _ 0]) simp
  then show ?thesis using True by (simp add: roundDouble_def)
next
  case False
  define e where "e = max (binexp \<bar>x\<bar>) (- 1022)"
  define n where "n = roundHalfEven (\<bar>x\<bar> / pow2 (e - 52))"
  have e: "- 1022 \<le> e" by (simp add: e_def)
  have g: "onGrid (of_int n * pow2 (e - 52))" by (rule onGrid_quantum[OF e])
  have "roundDouble x = (if pow2 1024 \<le> of_int n * pow2 (e - 52) then (if 0 < x then PosInf else NegInf)
           else Finite (if 0 < x then of_int n * pow2 (e - 52) else - (of_int n * pow2 (e - 52))))"
    using False by (simp add: roundDouble_def Let_def e_def n_def)
  then show ?thesis using g onGrid_minus[OF g] by simp
qed

lemma positive_roundDouble:
  assumes "onGrid d"
  shows "positive (roundDouble d) \<longleftrightarrow> 0 < d"
proof (cases "0 < d")
  case True
  define e where "e = max (binexp \<bar>d\<bar>) (- 1022)"
  define n where "n = roundHalfEven (\<bar>d\<bar> / pow2 (e - 52))"
  have ad: "\<bar>d\<bar> = d" using True by simp
  have q: "pow2 (e - 52) \<le> d"
  proof (cases "binexp d \<le> - 1022")
    case True
    then have "e = - 1022" by (simp add: e_def ad)
    then have "pow2 (e - 52) = pow2 (- 1074)" by simp
    then show ?thesis using onGrid_pos[OF assms \<open>0 < d\<close>] by simp
  next
    case False
    then have "e = binexp d" by (simp add: e_def ad)
    then have "pow2 (e - 52) \<le> pow2 (binexp d)" by (intro pow2_mono) simp
    also have "\<dots> \<le> d" by (rule binexp_lower[OF \<open>0 < d\<close>])
    finally show ?thesis .
  qed
  have "1 \<le> d / pow2 (e - 52)" using q pow2_pos[of "e - 52"] by (simp add: field_simps)
  then have n1: "1 \<le> n" unfolding n_def ad by (rule roundHalfEven_ge)
  then have rpos: "0 < of_int n * pow2 (e - 52)" using pow2_pos[of "e - 52"]
    by (simp add: zero_less_mult_iff)
  have "roundDouble d = (if pow2 1024 \<le> of_int n * pow2 (e - 52) then PosInf
           else Finite (of_int n * pow2 (e - 52)))"
    using True by (simp add: roundDouble_def Let_def e_def n_def)
  then show ?thesis using True rpos by (simp add: positive_def)
next
  case False
  show ?thesis
  proof (cases "d = 0")
    case True
    then show ?thesis by (simp add: roundDouble_def positive_def)
  next
    case nz: False
    define e where "e = max (binexp \<bar>d\<bar>) (- 1022)"
    define n where "n = roundHalfEven (\<bar>d\<bar> / pow2 (e - 52))"
    have "0 \<le> \<bar>d\<bar> / pow2 (e - 52)" using pow2_pos[of "e - 52"] by simp
    then have "0 \<le> n" unfolding n_def by (rule roundHalfEven_nonneg)
    then have r: "0 \<le> of_int n * pow2 (e - 52)" using pow2_pos[of "e - 52"] by simp
    have "roundDouble d = (if pow2 1024 \<le> of_int n * pow2 (e - 52) then NegInf
           else Finite (- (of_int n * pow2 (e - 52))))"
      using False nz by (simp add: roundDouble_def Let_def e_def n_def)
    then show ?thesis using False r by (simp add: positive_def)
  qed
qed

lemma comparator_sign:
  assumes "isDouble a" "isDouble b"
  shows "positive (jsSub b a) \<longleftrightarrow> jsLess a b"
proof (cases a; cases b)
  fix x y assume ab: "a = Finite x" "b = Finite y"
  with assms have "onGrid (y - x)" by (simp add: onGrid_diff)
  from positive_roundDouble[OF this] show ?thesis by (simp add: ab jsSub_def)
qed (use assms in \<open>simp_all add: jsSub_def positive_def\<close>)

subsection \<open>Groups and their order\<close>

lemma set_firstSeen [simp]: "set (firstSeen xs) = set xs"
  by (induction xs) auto

lemma distinct_firstSeen [simp]: "distinct (firstSeen xs)"
  by (induction xs) auto

lemma firstSeen_snoc:
  "firstSeen (xs @ [x]) = (if x \<in> set xs then firstSeen xs else firstSeen xs @ [x])"
  by (induction xs) auto

text \<open>A sum that is not NaN is a binary64 value or an infinity, whatever was added; and a
  running sum that is NaN stays NaN.\<close>

lemma jsAdd_isDouble: "jsAdd x y \<noteq> NaN \<Longrightarrow> isDouble (jsAdd x y)"
  by (cases x; cases y) (simp_all add: isDouble_roundDouble)

lemma sumNumbers_snoc: "sumNumbers (xs @ [x]) = jsAdd (sumNumbers xs) x"
  by (simp add: sumNumbers_def)

lemma sumNumbers_isDouble:
  assumes "xs \<noteq> []" "sumNumbers xs \<noteq> NaN"
  shows "isDouble (sumNumbers xs)"
proof -
  from assms(1) obtain ys y where xs: "xs = ys @ [y]" by (metis rev_exhaust)
  show ?thesis using assms(2) unfolding xs sumNumbers_snoc by (rule jsAdd_isDouble)
qed

lemma orZero_notNaN: "v \<noteq> NaN \<Longrightarrow> orZero (Some v) = v"
  by (cases v) simp_all

lemma update_member:
  assumes "l \<in> set ls" "distinct ls"
  shows "AList.update l v (map (\<lambda>k. (k, g k)) ls) = map (\<lambda>k. (k, if k = l then v else g k)) ls"
  using assms by (induction ls) auto

lemma map_of_keyed: "map_of (map (\<lambda>k. (k, g k)) ls) l = (if l \<in> set ls then Some (g l) else None)"
  by (induction ls) auto

text \<open>As long as no group's sum is NaN, the map built by the loop of \<^verbatim>\<open>aggregate\<close> holds
  the labels in first-met order with the sums of their groups: \<^verbatim>\<open>totals.get(label) || 0\<close>
  is then the running total, or 0 for a new label.\<close>

lemma foldl_addToTotals:
  assumes "\<forall>e\<in>set (sumsBy (groupLabel dimension) rs). snd e \<noteq> NaN"
  shows "foldl (addToTotals dimension) [] rs = sumsBy (groupLabel dimension) rs"
  using assms
proof (induction rs rule: rev_induct)
  case Nil
  then show ?case by (simp add: sumsBy_def)
next
  case (snoc r rs)
  define lab where "lab = groupLabel dimension"
  define l where "l = lab r"
  define ls where "ls = firstSeen (map lab rs)"
  define g where "g = (\<lambda>k. sumNumbers (map metric (filter (\<lambda>r. lab r = k) rs)))"
  define g' where "g' = (\<lambda>k. sumNumbers (map metric (filter (\<lambda>r. lab r = k) (rs @ [r]))))"
  have g'_other: "k \<noteq> l \<Longrightarrow> g' k = g k" for k
    by (auto simp: g'_def g_def l_def)
  have g'_l: "g' l = jsAdd (g l) (metric r)"
    by (simp add: g'_def g_def l_def sumNumbers_snoc)
  have nn': "g' k \<noteq> NaN" if "k \<in> set ls \<or> k = l" for k
  proof -
    from that have "k \<in> set (firstSeen (map lab (rs @ [r])))" by (auto simp: ls_def l_def)
    then have "(k, g' k) \<in> set (sumsBy lab (rs @ [r]))"
      unfolding sumsBy_def g'_def by (simp add: image_iff) blast
    with snoc.prems show ?thesis unfolding lab_def by fastforce
  qed
  have nn: "g k \<noteq> NaN" if "k \<in> set ls" for k
  proof (cases "k = l")
    case True
    from nn'[of l] have "jsAdd (g l) (metric r) \<noteq> NaN" by (simp add: g'_l)
    then have "g l \<noteq> NaN" by (cases "g l") auto
    with True show ?thesis by simp
  next
    case False
    with nn'[of k] that show ?thesis by (simp add: g'_other)
  qed
  have "\<forall>e\<in>set (sumsBy lab rs). snd e \<noteq> NaN"
    using nn by (auto simp: sumsBy_def ls_def g_def)
  from snoc.IH[OF this[unfolded lab_def]]
  have T: "foldl (addToTotals dimension) [] rs = map (\<lambda>k. (k, g k)) ls"
    by (simp add: sumsBy_def ls_def g_def lab_def)
  have step: "foldl (addToTotals dimension) [] (rs @ [r])
                = AList.update l (jsAdd (orZero (map_of (map (\<lambda>k. (k, g k)) ls) l)) (metric r))
                    (map (\<lambda>k. (k, g k)) ls)"
    by (simp add: T addToTotals_def Let_def l_def lab_def)
  show ?case
  proof (cases "l \<in> set ls")
    case True
    then have "l \<in> set (map lab rs)" by (simp add: ls_def)
    then have labels: "firstSeen (map lab (rs @ [r])) = ls"
      by (simp add: firstSeen_snoc l_def ls_def)
    have "foldl (addToTotals dimension) [] (rs @ [r])
            = map (\<lambda>k. (k, if k = l then jsAdd (g l) (metric r) else g k)) ls"
      unfolding step using True
      by (simp add: map_of_keyed update_member ls_def orZero_notNaN[OF nn[OF True]])
    also have "\<dots> = map (\<lambda>k. (k, g' k)) ls"
      using g'_other g'_l by auto
    finally show ?thesis unfolding sumsBy_def lab_def[symmetric] labels g'_def .
  next
    case False
    then have nl: "l \<notin> set (map lab rs)" by (simp add: ls_def)
    then have labels: "firstSeen (map lab (rs @ [r])) = ls @ [l]"
      by (simp add: firstSeen_snoc l_def ls_def)
    have "filter (\<lambda>r. lab r = l) rs = []"
      using nl by (auto simp: filter_empty_conv)
    then have gl0: "g l = Finite 0" by (simp add: g_def sumNumbers_def)
    have fresh: "l \<notin> fst ` set (map (\<lambda>k. (k, g k)) ls)" using False by (auto simp: image_iff)
    have "foldl (addToTotals dimension) [] (rs @ [r])
            = map (\<lambda>k. (k, g k)) ls @ [(l, jsAdd (Finite 0) (metric r))]"
      unfolding step using False by (simp add: map_of_keyed update_fresh[OF fresh])
    also have "\<dots> = map (\<lambda>k. (k, g' k)) (ls @ [l])"
    proof -
      have "map (\<lambda>k. (k, g k)) ls = map (\<lambda>k. (k, g' k)) ls"
        using g'_other False by (intro map_cong[OF refl]) (metis (full_types))
      then show ?thesis using g'_l gl0 by simp
    qed
    finally show ?thesis unfolding sumsBy_def lab_def[symmetric] labels g'_def .
  qed
qed

lemma sumsBy_isDouble:
  assumes "e \<in> set (sumsBy label rs)" "snd e \<noteq> NaN"
  shows "isDouble (snd e)"
proof -
  from assms(1) obtain l where l: "l \<in> set (map label rs)"
    and e: "e = (l, sumNumbers (map metric (filter (\<lambda>r. label r = l) rs)))"
    by (auto simp: sumsBy_def)
  from l have ne: "map metric (filter (\<lambda>r. label r = l) rs) \<noteq> []"
    by (auto simp: filter_empty_conv)
  from sumNumbers_isDouble[OF ne] assms(2) show ?thesis by (simp add: e)
qed

lemma sortKey_less:
  assumes "isDouble a" "isDouble b"
  shows "jsLess a b \<longleftrightarrow> sortKey b < sortKey a"
  using assms by (cases a; cases b) (simp_all add: less_prod_def)

lemma sortKey_inj: "sortKey a = sortKey b \<longleftrightarrow> a = b"
  by (cases a; cases b) simp_all

lemma insertBy_insort_key:
  assumes "isDouble (snd x)" "\<forall>y\<in>set ys. isDouble (snd y)"
  shows "insertBy (\<lambda>a b. jsSub (snd b) (snd a)) x ys = insort_key (\<lambda>e. sortKey (snd e)) x ys"
  using assms
proof (induction ys)
  case Nil
  then show ?case by simp
next
  case (Cons y ys)
  have "positive (jsSub (snd y) (snd x)) \<longleftrightarrow> \<not> sortKey (snd x) \<le> sortKey (snd y)"
    using comparator_sign[of "snd x" "snd y"] sortKey_less[of "snd x" "snd y"] Cons.prems
    by (simp add: not_le)
  then show ?case using Cons by simp
qed

lemma sortBy_sort_key:
  assumes "\<forall>y\<in>set xs. isDouble (snd y)"
  shows "sortBy (\<lambda>a b. jsSub (snd b) (snd a)) xs = sort_key (\<lambda>e. sortKey (snd e)) xs"
  using assms
proof (induction xs)
  case Nil
  then show ?case by (simp add: sortBy_def)
next
  case (Cons x xs)
  then have ih: "sortBy (\<lambda>a b. jsSub (snd b) (snd a)) xs = sort_key (\<lambda>e. sortKey (snd e)) xs"
    by simp
  have "\<forall>y\<in>set (sort_key (\<lambda>e. sortKey (snd e)) xs). isDouble (snd y)"
    using Cons.prems by simp
  from insertBy_insort_key[OF _ this, of x] Cons.prems ih
  show ?case by (simp add: sortBy_def)
qed

lemma aggregate_sort_key:
  assumes nn: "\<forall>e\<in>set (sumsBy (groupLabel dimension) rs). snd e \<noteq> NaN"
  shows "aggregate rs dimension
           = sort_key (\<lambda>e. sortKey (snd e)) (sumsBy (groupLabel dimension) rs)"
proof -
  have dbl: "\<forall>e\<in>set (sumsBy (groupLabel dimension) rs). isDouble (snd e)"
    using sumsBy_isDouble nn by blast
  show ?thesis
    unfolding aggregate_def foldl_addToTotals[OF nn] by (rule sortBy_sort_key[OF dbl])
qed

text \<open>The label that \<^verbatim>\<open>aggregate\<close> computes from the name of a dimension is the label of
  the specification.\<close>

lemma groupLabel_labelOf: "groupLabel (dimensionName d) r = labelOf d r"
  by (cases d) (simp_all add: groupLabel_def dimensionValue_def labelOf_def)

lemma groupTotals_program: "groupTotals d rs = sumsBy (groupLabel (dimensionName d)) rs"
proof -
  have "labelOf d = groupLabel (dimensionName d)"
    by (rule ext) (simp add: groupLabel_labelOf)
  then show ?thesis by (simp add: groupTotals_def)
qed

text \<open>Claim C4, for record lists in which no group's sum is NaN (in particular for finite
  metrics, and for infinite metrics of one sign per group). The pairs returned by
  \<^verbatim>\<open>aggregate\<close> are the groups of the specification, stably sorted on the key "minus the
  total": there is one pair per label, the label being the record's value in the chosen
  dimension and \<^verbatim>\<open>Unspecified\<close> for the empty value, with the sum of the group's metrics;
  the pairs are sorted by total, greatest first, and the pairs of any one total stand in the
  order in which their labels were first met.\<close>

theorem aggregate_sorted_groups:
  "(\<forall>e\<in>set (groupTotals d rs). snd e \<noteq> NaN) \<longrightarrow>
     aggregate rs (dimensionName d) = sort_key (\<lambda>e. sortKey (snd e)) (groupTotals d rs)
     \<and> mset (aggregate rs (dimensionName d)) = mset (groupTotals d rs)
     \<and> sorted_wrt (\<lambda>a b. \<not> jsLess (snd a) (snd b)) (aggregate rs (dimensionName d))
     \<and> (\<forall>v. filter (\<lambda>e. snd e = v) (aggregate rs (dimensionName d))
              = filter (\<lambda>e. snd e = v) (groupTotals d rs))"
proof
  assume nn: "\<forall>e\<in>set (groupTotals d rs). snd e \<noteq> NaN"
  let ?T = "groupTotals d rs"
  let ?k = "\<lambda>e::string \<times> jsnum. sortKey (snd e)"
  have nn': "\<forall>e\<in>set (sumsBy (groupLabel (dimensionName d)) rs). snd e \<noteq> NaN"
    using nn by (simp add: groupTotals_program)
  have dbl: "\<forall>e\<in>set ?T. isDouble (snd e)"
    using sumsBy_isDouble nn' unfolding groupTotals_program by blast
  have agg: "aggregate rs (dimensionName d) = sort_key ?k ?T"
    unfolding groupTotals_program by (rule aggregate_sort_key[OF nn'])
  have m: "mset (aggregate rs (dimensionName d)) = mset ?T" unfolding agg by simp
  have "sorted (map ?k (sort_key ?k ?T))" by (rule sorted_sort_key)
  then have "sorted_wrt (\<lambda>a b. ?k a \<le> ?k b) (sort_key ?k ?T)" by (simp add: sorted_map)
  then have s: "sorted_wrt (\<lambda>a b. \<not> jsLess (snd a) (snd b)) (sort_key ?k ?T)"
  proof (rule sorted_wrt_mono_rel[rotated])
    fix a b assume "a \<in> set (sort_key ?k ?T)" "b \<in> set (sort_key ?k ?T)" "?k a \<le> ?k b"
    then show "\<not> jsLess (snd a) (snd b)"
      using dbl sortKey_less[of "snd a" "snd b"] by (auto simp: not_less)
  qed
  have st: "\<forall>v. filter (\<lambda>e. snd e = v) (sort_key ?k ?T) = filter (\<lambda>e. snd e = v) ?T"
  proof
    fix v
    have "filter (\<lambda>e. ?k e = sortKey v) (sort_key ?k ?T) = filter (\<lambda>e. ?k e = sortKey v) ?T"
      by (rule sort_key_stable)
    then show "filter (\<lambda>e. snd e = v) (sort_key ?k ?T) = filter (\<lambda>e. snd e = v) ?T"
      by (simp add: sortKey_inj)
  qed
  show "aggregate rs (dimensionName d) = sort_key ?k ?T
     \<and> mset (aggregate rs (dimensionName d)) = mset ?T
     \<and> sorted_wrt (\<lambda>a b. \<not> jsLess (snd a) (snd b)) (aggregate rs (dimensionName d))
     \<and> (\<forall>v. filter (\<lambda>e. snd e = v) (aggregate rs (dimensionName d)) = filter (\<lambda>e. snd e = v) ?T)"
    using m s st unfolding agg by blast
qed

subsection \<open>Exact sums\<close>












subsection \<open>Examples\<close>

lemma roundDouble_numeral:
  "(numeral n :: int) \<le> 2 ^ 53 \<Longrightarrow> roundDouble (numeral n) = Finite (numeral n)"
  using roundDouble_of_int[of "numeral n"] by simp


lemma roundDouble_0: "roundDouble 0 = Finite 0"
  by (simp add: roundDouble_def)





lemma tieExample_aggregate:
  "aggregate tieExample ''product'' = [(''A'', Finite 5), (''B'', Finite 5)]"
  by (simp add: tieExample_def aggregate_def addToTotals_def groupLabel_def dimensionValue_def
        sortBy_def jsSub_def positive_def roundDouble_numeral roundDouble_0)

lemma tieExample_groups:
  "groupTotals DimProduct tieExample = [(''A'', Finite 5), (''B'', Finite 5)]"
  by (simp add: tieExample_def groupTotals_def sumsBy_def labelOf_def sumNumbers_def
        roundDouble_numeral)

lemma infiniteTotalExample_groups:
  "groupTotals DimBranch infiniteTotalExample = [(''East'', Finite 5), (''Unspecified'', PosInf)]"
  by (simp add: infiniteTotalExample_def groupTotals_def sumsBy_def labelOf_def sumNumbers_def
        roundDouble_numeral)

text \<open>The total of a group is not always the sum of its metrics. The metrics
  \<^verbatim>\<open>Infinity\<close>, \<^verbatim>\<open>-Infinity\<close> and 5 of one group sum to NaN, as \<^verbatim>\<open>reduce\<close> on line 110
  finds for the same records; in \<^verbatim>\<open>aggregate\<close> the running total NaN is falsy, so
  \<^verbatim>\<open>totals.get(label) || 0\<close> starts the sum again at 0 and the group's total is 5.\<close>

theorem aggregate_reset_counterexample:
  "aggregate resetExample ''product'' = [(''A'', Finite 5)]
   \<and> groupTotals DimProduct resetExample = [(''A'', NaN)]
   \<and> sumNumbers (map metric resetExample) = NaN"
  by (simp add: resetExample_def aggregate_def addToTotals_def groupLabel_def dimensionValue_def
        sortBy_def groupTotals_def sumsBy_def labelOf_def sumNumbers_def roundDouble_numeral)



text \<open>The theorem at the specification's example, grouped by product (A has 3 and 2, B has
  5; both total 5 and A, met first, stays first), and at three records grouped by branch,
  two of them without a branch and with the metric \<^verbatim>\<open>Infinity\<close>: their group is labelled
  \<^verbatim>\<open>Unspecified\<close>, totals \<^verbatim>\<open>Infinity\<close> and comes first.\<close>

theorem aggregate_sorted_groups_witness:
  "list_all (\<lambda>e. snd e \<noteq> NaN) (groupTotals DimProduct tieExample)
   \<and> groupTotals DimProduct tieExample = [(''A'', Finite 5), (''B'', Finite 5)]
   \<and> aggregate tieExample ''product'' = [(''A'', Finite 5), (''B'', Finite 5)]
   \<and> list_all (\<lambda>e. snd e \<noteq> NaN) (groupTotals DimBranch infiniteTotalExample)
   \<and> groupTotals DimBranch infiniteTotalExample = [(''East'', Finite 5), (''Unspecified'', PosInf)]
   \<and> aggregate infiniteTotalExample ''branch'' = [(''Unspecified'', PosInf), (''East'', Finite 5)]"
proof -
  have n1: "list_all (\<lambda>e. snd e \<noteq> NaN) (groupTotals DimProduct tieExample)"
    by (simp add: tieExample_groups)
  have n2: "list_all (\<lambda>e. snd e \<noteq> NaN) (groupTotals DimBranch infiniteTotalExample)"
    by (simp add: infiniteTotalExample_groups)
  from aggregate_sorted_groups[of DimProduct tieExample] n1
  have "aggregate tieExample (dimensionName DimProduct)
          = sort_key (\<lambda>e. sortKey (snd e)) (groupTotals DimProduct tieExample)"
    by (simp add: list_all_iff)
  then have a1: "aggregate tieExample ''product'' = [(''A'', Finite 5), (''B'', Finite 5)]"
    by (simp add: tieExample_groups)
  from aggregate_sorted_groups[of DimBranch infiniteTotalExample] n2
  have "aggregate infiniteTotalExample (dimensionName DimBranch)
          = sort_key (\<lambda>e. sortKey (snd e)) (groupTotals DimBranch infiniteTotalExample)"
    by (simp add: list_all_iff)
  then have a2: "aggregate infiniteTotalExample ''branch''
                   = [(''Unspecified'', PosInf), (''East'', Finite 5)]"
    by (simp add: infiniteTotalExample_groups less_eq_prod_def)
  show ?thesis using n1 n2 a1 a2 tieExample_groups infiniteTotalExample_groups by simp
qed


end
